theory Spec2Isabelle
  imports Main "HOL-Library.Word"
begin

unbundle bit_operations_syntax

section \<open>Kernel interfaces the block driver relies on\<close>

text \<open>
  The driver \<^verbatim>\<open>drivers/mmc/card/block.c\<close> is embedded function by function. What it
  calls in the rest of the kernel (errno values, the block layer's request accessors,
  the MMC status macros, \<^verbatim>\<open>fls\<close>) is modelled here, each definition saying so.
  The build options \<^verbatim>\<open>CONFIG_MMC_BLOCK_DEFERRED_RESUME\<close>, \<^verbatim>\<open>CONFIG_MMC_PERF_PROFILING\<close>
  and \<^verbatim>\<open>CONFIG_ARCH_MSM7X30\<close> are taken as unset; \<^verbatim>\<open>printk\<close> calls and the
  scatter-list trimming (which feed no decision) are left out.
\<close>

definition ENXIO :: int where
  \<comment> \<open>Modelled from the spec: the errno header is not among the sources; the usual value.\<close>
  "ENXIO = 6"

definition EIO :: int where
  \<comment> \<open>Modelled from the spec: the errno header is not among the sources; the usual value.\<close>
  "EIO = 5"

definition EROFS :: int where
  \<comment> \<open>Modelled from the spec: the errno header is not among the sources; the usual value.\<close>
  "EROFS = 30"

definition FMODE_WRITE :: "32 word" where
  \<comment> \<open>Modelled from the spec: the file-mode header is not among the sources; bit 1.\<close>
  "FMODE_WRITE = 2"

definition R1_READY_FOR_DATA :: "32 word" where
  \<comment> \<open>Modelled from the spec: the MMC protocol header is not among the sources; bit 8 of
      the card status word.\<close>
  "R1_READY_FOR_DATA = 0x100"

definition R1_APP_CMD :: "32 word" where
  \<comment> \<open>Modelled from the spec: the MMC protocol header is not among the sources; bit 5 of
      the card status word.\<close>
  "R1_APP_CMD = 0x20"

definition R1_CURRENT_STATE :: "32 word \<Rightarrow> 32 word" where
  \<comment> \<open>Modelled from the spec: the MMC protocol header is not among the sources; bits 9 to
      12 of the card status word (4 is the transfer state, 7 the programming state).\<close>
  "R1_CURRENT_STATE x = drop_bit 9 (x AND 0x1E00)"

fun fls :: "nat \<Rightarrow> nat" where
  \<comment> \<open>Modelled from the spec: the bit-operations header is not among the sources. Find
      last set: the position of the highest set bit, counted from 1, and 0 for 0.\<close>
  "fls n = (if n = 0 then 0 else Suc (fls (n div 2)))"

declare fls.simps [simp del]

section \<open>Opening the block device\<close>

record mmc_blk_data =
  usage :: "32 word"
  read_only :: "32 word"

text \<open>
  \<^verbatim>\<open>mmc_blk_get\<close>, \<^verbatim>\<open>mmc_blk_put\<close> and \<^verbatim>\<open>mmc_blk_open\<close> (lines 77 to 126 of
  \<^verbatim>\<open>block.c\<close>) work on the disk with the \<^verbatim>\<open>mmc_blk_data\<close> its \<^verbatim>\<open>private_data\<close> points to (\<open>None\<close> for a
  null pointer), whether \<^verbatim>\<open>mmc_blk_put\<close> has torn the slot down (queue cleaned up, bit
  in \<^verbatim>\<open>dev_use\<close> cleared, disk put, structure freed), and how often
  \<^verbatim>\<open>check_disk_change\<close> has been called on the device.
\<close>

record blk_dev =
  private_data :: "mmc_blk_data option"
  torn_down :: bool
  disk_checks :: nat

definition mmc_blk_get :: "blk_dev \<Rightarrow> bool \<times> blk_dev" where
  "mmc_blk_get d =
     (case private_data d of
        None \<Rightarrow> (False, d)
      | Some md \<Rightarrow>
          if usage md = 0 then (False, d)
          else (True, d\<lparr>private_data := Some (md\<lparr>usage := usage md + 1\<rparr>)\<rparr>))"

definition mmc_blk_put :: "blk_dev \<Rightarrow> blk_dev" where
  "mmc_blk_put d =
     (case private_data d of
        None \<Rightarrow> d
      | Some md \<Rightarrow>
          (let md' = md\<lparr>usage := usage md - 1\<rparr>;
               d' = d\<lparr>private_data := Some md'\<rparr>
           in if usage md' = 0 then d'\<lparr>torn_down := True\<rparr> else d'))"

definition mmc_blk_open :: "blk_dev \<Rightarrow> 32 word \<Rightarrow> int \<times> blk_dev" where
  "mmc_blk_open d mode =
     (case mmc_blk_get d of
        (False, d1) \<Rightarrow> (- ENXIO, d1)
      | (True, d1) \<Rightarrow>
          (let md = the (private_data d1);
               d2 = (if usage md = 2 then d1\<lparr>disk_checks := disk_checks d1 + 1\<rparr> else d1)
           in if mode AND FMODE_WRITE \<noteq> 0 \<and> read_only md \<noteq> 0
              then (- EROFS, mmc_blk_put d2)
              else (0, d2)))"

section \<open>Requests, cards and the transport\<close>

datatype dir = READ | WRITE

text \<open>
  A block-layer request: its direction, the sector it currently starts at and the byte
  lengths of the segments still pending.
\<close>

record request =
  rq_dir :: dir
  rq_sector :: nat
  rq_segs :: "nat list"

definition blk_rq_bytes :: "request \<Rightarrow> nat" where
  \<comment> \<open>Modelled from the spec: the block layer is not among the sources. The bytes of the
      request not yet completed.\<close>
  "blk_rq_bytes req = sum_list (rq_segs req)"

definition blk_rq_sectors :: "request \<Rightarrow> nat" where
  \<comment> \<open>Modelled from the spec: the block layer is not among the sources. The pending bytes
      in 512-byte sectors.\<close>
  "blk_rq_sectors req = blk_rq_bytes req div 512"

definition blk_rq_cur_bytes :: "request \<Rightarrow> nat" where
  \<comment> \<open>Modelled from the spec: the block layer is not among the sources. The bytes left in
      the current segment, 0 when nothing is pending.\<close>
  "blk_rq_cur_bytes req = (case rq_segs req of [] \<Rightarrow> 0 | s # _ \<Rightarrow> s)"

fun consume :: "nat \<Rightarrow> nat list \<Rightarrow> nat list" where
  \<comment> \<open>Modelled from the spec: the block layer is not among the sources. Completing \<open>n\<close>
      bytes retires whole segments from the front and shortens the first one that is
      only partly covered; a count beyond the pending bytes retires everything.\<close>
  "consume n [] = []"
| "consume n (s # ss) = (if s \<le> n then consume (n - s) ss else (s - n) # ss)"

definition blk_end_request :: "request \<Rightarrow> nat \<Rightarrow> bool \<times> request" where
  \<comment> \<open>Modelled from the spec: the block layer's \<^verbatim>\<open>__blk_end_request\<close> is not among the
      sources. It covers the byte range monotonically: \<open>n\<close> bytes are completed from the
      front, the start sector moves on by the completed bytes, and the result tells
      whether anything is still pending. The error code only labels the completed
      bytes and is kept in the trace.\<close>
  "blk_end_request req n =
     (let segs' = consume n (rq_segs req)
      in (segs' \<noteq> [],
          req\<lparr>rq_sector := rq_sector req + (sum_list (rq_segs req) - sum_list segs') div 512,
              rq_segs := segs'\<rparr>))"

record mmc_card =
  card_sd :: bool
  card_blockaddr :: bool
  host_spi :: bool
  max_blk_count :: nat

datatype opcode =
  MMC_READ_SINGLE_BLOCK | MMC_READ_MULTIPLE_BLOCK | MMC_WRITE_BLOCK | MMC_WRITE_MULTIPLE_BLOCK

text \<open>What one loop cycle puts into \<^verbatim>\<open>brq\<close> before handing it to the host.\<close>

record plan =
  pl_opcode :: opcode
  pl_arg :: "32 word"
  pl_blocks :: nat
  pl_stop :: bool

text \<open>What the host leaves in \<^verbatim>\<open>brq\<close> when \<^verbatim>\<open>mmc_wait_for_req\<close> returns.\<close>

record outcome =
  cmd_error :: int
  data_error :: int
  stop_error :: int
  bytes_xfered :: nat

text \<open>One answer to the status command of the polling loop: the error of
  \<^verbatim>\<open>mmc_wait_for_cmd\<close>, the response word, and whether \<^verbatim>\<open>time_after(jiffies, delay)\<close>
  holds when the loop looks at the clock.\<close>

record poll =
  po_err :: int
  po_resp :: "32 word"
  po_late :: bool

text \<open>What the environment answers during one cycle of the request loop.\<close>

record cycle_env =
  ce_xfer :: outcome
  ce_polls :: "poll list"
  ce_removed :: bool
  ce_reinit :: int

text \<open>What the card answers to the written-blocks query.\<close>

record wr_blocks_env =
  wb_app_err :: int
  wb_app_resp :: "32 word"
  wb_alloc_failed :: bool
  wb_cmd_error :: int
  wb_data_error :: int
  wb_blocks :: "32 word"

datatype event =
    Claim_host
  | Release_host
  | Wait_for_req plan outcome
  | Get_card_status
  | Msleep nat
  | Send_status
  | Reinit_card int
  | Set_blksize
  | Remove_card
  | Num_wr_blocks "32 word"
  | End_request int nat

text \<open>The local variables of \<^verbatim>\<open>mmc_blk_issue_rq\<close> that live across cycles.\<close>

record rstate =
  rs_ret :: bool
  rs_disable_multi :: bool
  rs_card_no_ready :: nat
  rs_err :: int
  rs_try_recovery :: nat
  rs_do_reinit :: bool
  rs_do_remove :: bool

definition init_rstate :: rstate where
  "init_rstate =
     \<lparr>rs_ret = True, rs_disable_multi = False, rs_card_no_ready = 0, rs_err = 0,
      rs_try_recovery = 1, rs_do_reinit = False, rs_do_remove = False\<rparr>"

datatype flow =
    Next (fl_req: request) (fl_st: rstate)
  | Goto_cmd_err (fl_req: request) (fl_st: rstate)

section \<open>The written-blocks query\<close>

text \<open>
  \<^verbatim>\<open>mmc_sd_num_wr_blocks\<close> (lines 159 to 230): the application command, the query
  itself and the buffer for its answer can each fail, and every failure is answered
  with \<^verbatim>\<open>(u32)-1\<close>; otherwise the answer is the count the card sent.
\<close>

definition mmc_sd_num_wr_blocks :: "mmc_card \<Rightarrow> wr_blocks_env \<Rightarrow> 32 word" where
  "mmc_sd_num_wr_blocks c q =
     (if wb_app_err q \<noteq> 0 then - 1
      else if \<not> host_spi c \<and> wb_app_resp q AND R1_APP_CMD = 0 then - 1
      else if wb_alloc_failed q then - 1
      else if wb_cmd_error q \<noteq> 0 \<or> wb_data_error q \<noteq> 0 then - 1
      else wb_blocks q)"

section \<open>Planning one transfer\<close>

text \<open>
  The head of the loop body (lines 382 to 432): the argument is the request's position,
  shifted to a byte address unless the card is block addressed; the block count is the
  request's sector count, capped by the host and cut to 1 in degraded mode; a transfer
  of more than one block gets a stop command unless it is a write over SPI.
\<close>

definition mmc_blk_plan :: "mmc_card \<Rightarrow> bool \<Rightarrow> request \<Rightarrow> plan" where
  "mmc_blk_plan c disable_multi req =
     (let pos = (word_of_nat (rq_sector req) :: 32 word);
          arg = (if \<not> card_blockaddr c then push_bit 9 pos else pos);
          b0 = blk_rq_sectors req;
          b1 = (if b0 > max_blk_count c then max_blk_count c else b0);
          b = (if disable_multi \<and> b1 > 1 then 1 else b1);
          stop = (b > 1 \<and> (\<not> host_spi c \<or> rq_dir req = READ));
          readcmd = (if b > 1 then MMC_READ_MULTIPLE_BLOCK else MMC_READ_SINGLE_BLOCK);
          writecmd = (if b > 1 then MMC_WRITE_MULTIPLE_BLOCK else MMC_WRITE_BLOCK)
      in \<lparr>pl_opcode = (if rq_dir req = READ then readcmd else writecmd),
          pl_arg = arg, pl_blocks = b, pl_stop = stop\<rparr>)"

text \<open>\<^verbatim>\<open>brq.stop.error\<close> is zeroed with \<^verbatim>\<open>brq\<close> and only a stop command that was
  attached can set it.\<close>

definition brq_failed :: "plan \<Rightarrow> outcome \<Rightarrow> bool" where
  "brq_failed p oc \<longleftrightarrow>
     cmd_error oc \<noteq> 0 \<or> data_error oc \<noteq> 0 \<or> (pl_stop p \<and> stop_error oc \<noteq> 0)"

section \<open>The escalation ladder and the status poll\<close>

text \<open>
  The three statements that pick the recovery action and advance \<^verbatim>\<open>try_recovery\<close>
  stand twice in the function, in the ladder (lines 661 to 665) and at the not-ready
  exit of the status poll (lines 595 to 599). The poll (lines 559 to 613) runs after a
  write on a host that is not SPI; its counter \<^verbatim>\<open>i\<close> starts at 0 and counts the status
  commands sent.
\<close>

definition ladder :: "bool \<Rightarrow> rstate \<Rightarrow> rstate" where
  "ladder sd st =
     (let st1 = (if rs_try_recovery st = 1 then st\<lparr>rs_do_reinit := True\<rparr>
                 else if sd \<and> rs_try_recovery st = 2 then st\<lparr>rs_do_remove := True\<rparr>
                 else st)
      in st1\<lparr>rs_try_recovery := rs_try_recovery st1 + 1\<rparr>)"

definition poll_msleep :: "bool \<Rightarrow> nat \<Rightarrow> nat option" where
  "poll_msleep sleepy i = (if sleepy \<and> fls i > 11 then Some (fls (i div 2 ^ 11)) else None)"


datatype poll_exit = Poll_again | Poll_leave | Poll_break | Poll_goto_cmd_err

definition card_ready :: "32 word \<Rightarrow> bool" where
  "card_ready resp \<longleftrightarrow> resp AND R1_READY_FOR_DATA \<noteq> 0 \<and> R1_CURRENT_STATE resp = 4"

definition card_busy :: "32 word \<Rightarrow> bool" where
  "card_busy resp \<longleftrightarrow> resp AND R1_READY_FOR_DATA = 0 \<or> R1_CURRENT_STATE resp = 7"

definition poll_step :: "bool \<Rightarrow> nat \<Rightarrow> poll \<Rightarrow> rstate \<Rightarrow> event list \<times> poll_exit \<times> rstate" where
  "poll_step sd i p st =
     (let evs = (case poll_msleep sd i of None \<Rightarrow> [] | Some msec \<Rightarrow> [Msleep msec]) @ [Send_status];
          st1 = st\<lparr>rs_err := po_err p\<rparr>
      in if po_err p \<noteq> 0 then (evs, Poll_goto_cmd_err, st1)
         else if po_late p \<and> fls i > 10 then
           (if card_ready (po_resp p) then (evs, Poll_break, st1)
            else (evs, Poll_break,
                  (ladder sd st1)\<lparr>rs_err := 1,
                                  rs_card_no_ready := rs_card_no_ready st1 + 1\<rparr>))
         else if card_busy (po_resp p) then (evs, Poll_again, st1)
         else (evs, Poll_leave, st1))"

fun status_poll :: "bool \<Rightarrow> poll list \<Rightarrow> nat \<Rightarrow> rstate \<Rightarrow> (event list \<times> bool \<times> rstate) option" where
  "status_poll sd [] i st = None"
| "status_poll sd (p # ps) i st =
     (case poll_step sd i p st of
        (evs, Poll_again, st') \<Rightarrow>
          (case status_poll sd ps (i + 1) st' of
             None \<Rightarrow> None
           | Some (evs', r) \<Rightarrow> Some (evs @ evs', r))
      | (evs, x, st') \<Rightarrow> Some (evs, x = Poll_goto_cmd_err, st'))"

section \<open>One cycle of the request loop\<close>

text \<open>
  \<open>recover\<close> is the code from the label \<^verbatim>\<open>recovery\<close> to the end of the loop body
  (lines 635 to 687): a pending reinitialisation or removal, else the ladder, which
  jumps back to the label when it has scheduled an action, else the completion of the
  bytes that were moved. \<open>cycle\<close> is the whole body of the loop (lines 379 to 687) up
  to the test of \<^verbatim>\<open>ret\<close>.
\<close>

function recover :: "mmc_card \<Rightarrow> cycle_env \<Rightarrow> bool \<Rightarrow> nat \<Rightarrow> request \<Rightarrow> rstate \<Rightarrow> event list \<times> flow" where
  "recover c e failed bx req st =
     (if rs_do_reinit st then
        (if ce_removed e then ([], Goto_cmd_err req (st\<lparr>rs_do_reinit := False\<rparr>))
         else if ce_reinit e = 0
         then ([Reinit_card 0, Set_blksize],
               Next req (st\<lparr>rs_do_reinit := False, rs_err := 0\<rparr>))
         else (Reinit_card (ce_reinit e) # (if card_sd c then [Remove_card] else []),
               Goto_cmd_err req (st\<lparr>rs_do_reinit := False, rs_err := ce_reinit e\<rparr>)))
      else if rs_do_remove st then
        ([Remove_card], Goto_cmd_err req (st\<lparr>rs_do_remove := False\<rparr>))
      else if failed \<or> rs_card_no_ready st \<noteq> 0 then
        (if rs_do_reinit (ladder (card_sd c) st) \<or> rs_do_remove (ladder (card_sd c) st)
         then recover c e failed bx req (ladder (card_sd c) st)
         else if rq_dir req = READ
         then ([End_request (- EIO) 512],
               Next (snd (blk_end_request req 512))
                    ((ladder (card_sd c) st)\<lparr>rs_ret := fst (blk_end_request req 512)\<rparr>))
         else ([], Goto_cmd_err req (ladder (card_sd c) st)))
      else ([End_request 0 bx],
            Next (snd (blk_end_request req bx)) (st\<lparr>rs_ret := fst (blk_end_request req bx)\<rparr>)))"
  by pat_completeness auto
termination
  by (relation "measure (\<lambda>(c, e, failed, bx, req, st).
                  if rs_do_reinit st \<or> rs_do_remove st then 0 else 1)") auto

declare recover.simps [simp del]

definition cycle :: "mmc_card \<Rightarrow> cycle_env \<Rightarrow> request \<Rightarrow> rstate \<Rightarrow> (event list \<times> flow) option" where
  "cycle c e req st =
     (let p = mmc_blk_plan c (rs_disable_multi st) req;
          oc = ce_xfer e;
          failed = brq_failed p oc;
          ev1 = [Wait_for_req p oc]
      in if failed \<and> pl_blocks p > 1 \<and> rq_dir req = READ
         then Some (ev1, Next req (st\<lparr>rs_disable_multi := True\<rparr>))
         else
           (let ev2 = (if failed then [Get_card_status] else []);
                st1 = (if \<not> failed \<and> rs_disable_multi st
                       then st\<lparr>rs_disable_multi := False\<rparr> else st)
            in if \<not> host_spi c \<and> rq_dir req \<noteq> READ then
                 (case status_poll (card_sd c) (ce_polls e) 0 (st1\<lparr>rs_err := 0\<rparr>) of
                    None \<Rightarrow> None
                  | Some (pevs, True, st2) \<Rightarrow> Some (ev1 @ ev2 @ pevs, Goto_cmd_err req st2)
                  | Some (pevs, False, st2) \<Rightarrow>
                      (let st3 = (if rs_err st2 = 0 then st2\<lparr>rs_card_no_ready := 0\<rparr> else st2);
                           (revs, fl) = recover c e failed (bytes_xfered oc) req st3
                       in Some (ev1 @ ev2 @ pevs @ revs, fl)))
               else
                 (let (revs, fl) = recover c e failed (bytes_xfered oc) req st1
                  in Some (ev1 @ ev2 @ revs, fl))))"

section \<open>Fatal termination and the request loop\<close>

function fail_rest :: "bool \<Rightarrow> request \<Rightarrow> event list" where
  "fail_rest ret req =
     (if ret
      then End_request (- EIO) (blk_rq_cur_bytes req)
             # fail_rest (fst (blk_end_request req (blk_rq_cur_bytes req)))
                         (snd (blk_end_request req (blk_rq_cur_bytes req)))
      else [])"
  by pat_completeness auto
termination
proof (relation "measure (\<lambda>(ret, req). if ret then Suc (length (rq_segs req)) else 0)")
  show "wf (measure (\<lambda>(ret, req). if ret then Suc (length (rq_segs req)) else 0))"
    by simp
next
  fix ret :: bool and req :: request
  assume ret
  have len: "length (consume n xs) \<le> length xs" for n xs
    by (induction xs arbitrary: n) (auto intro: le_SucI)
  have "length (consume (blk_rq_cur_bytes req) (rq_segs req)) < Suc (length (rq_segs req))"
    using len [of "blk_rq_cur_bytes req" "rq_segs req"] by simp
  moreover have "consume (blk_rq_cur_bytes req) (rq_segs req) \<noteq> []
      \<Longrightarrow> length (consume (blk_rq_cur_bytes req) (rq_segs req)) < length (rq_segs req)"
    using len [of 0 "tl (rq_segs req)"]
    by (cases "rq_segs req") (auto simp: blk_rq_cur_bytes_def)
  ultimately show "((fst (blk_end_request req (blk_rq_cur_bytes req)),
                     snd (blk_end_request req (blk_rq_cur_bytes req))), ret, req)
        \<in> measure (\<lambda>(ret, req). if ret then Suc (length (rq_segs req)) else 0)"
    using \<open>ret\<close> by (simp add: blk_end_request_def Let_def)
qed

declare fail_rest.simps [simp del]

text \<open>The code after the label \<^verbatim>\<open>cmd_err\<close> (lines 694 to 725); \<open>bx\<close> is
  \<^verbatim>\<open>brq.data.bytes_xfered\<close> of the cycle that jumped there, and \<open>fail_rest\<close> is the
  closing loop that fails what is still pending, one segment at a time.\<close>

definition cmd_err :: "mmc_card \<Rightarrow> wr_blocks_env \<Rightarrow> nat \<Rightarrow> request \<Rightarrow> rstate \<Rightarrow> event list" where
  "cmd_err c q bx req st =
     (if card_sd c then
        (let blocks = mmc_sd_num_wr_blocks c q
         in if blocks \<noteq> - 1
            then [Num_wr_blocks blocks, End_request 0 (unat (push_bit 9 blocks)), Release_host]
                   @ fail_rest (fst (blk_end_request req (unat (push_bit 9 blocks))))
                               (snd (blk_end_request req (unat (push_bit 9 blocks))))
            else [Num_wr_blocks blocks, Release_host] @ fail_rest (rs_ret st) req)
      else [End_request 0 bx, Release_host]
             @ fail_rest (fst (blk_end_request req bx)) (snd (blk_end_request req bx)))"

text \<open>
  The \<^verbatim>\<open>do ... while (ret)\<close> loop. Each cycle takes the next answer of the environment;
  \<open>None\<close> means the answers ran out while the loop was still running. The result is
  the trace of calls and the value returned.
\<close>

fun issue_loop :: "mmc_card \<Rightarrow> wr_blocks_env \<Rightarrow> cycle_env list \<Rightarrow> request \<Rightarrow> rstate
    \<Rightarrow> (event list \<times> int) option" where
  "issue_loop c q [] req st = None"
| "issue_loop c q (e # es) req st =
     (case cycle c e req st of
        None \<Rightarrow> None
      | Some (evs, Goto_cmd_err req' st') \<Rightarrow>
          Some (evs @ cmd_err c q (bytes_xfered (ce_xfer e)) req' st', 0)
      | Some (evs, Next req' st') \<Rightarrow>
          if rs_ret st'
          then (case issue_loop c q es req' st' of
                  None \<Rightarrow> None
                | Some (evs', r) \<Rightarrow> Some (evs @ evs', r))
          else Some (evs @ [Release_host], 1))"

definition mmc_blk_issue_rq :: "mmc_card \<Rightarrow> wr_blocks_env \<Rightarrow> cycle_env list \<Rightarrow> request
    \<Rightarrow> (event list \<times> int) option" where
  "mmc_blk_issue_rq c q es req =
     (case issue_loop c q es req init_rstate of
        None \<Rightarrow> None
      | Some (evs, r) \<Rightarrow> Some (Claim_host # evs, r))"

section \<open>Reading a trace\<close>

text \<open>
  The bytes passed to all completion calls, the bytes passed with error code 0, the
  bytes the host reports as moved, the bytes the card's written-blocks answer stands
  for when it is used, and the number of transfers handed to the host (one per cycle).
\<close>

fun ev_reported :: "event \<Rightarrow> nat" where
  "ev_reported (End_request err n) = n"
| "ev_reported ev = 0"

fun ev_success :: "event \<Rightarrow> nat" where
  "ev_success (End_request err n) = (if err = 0 then n else 0)"
| "ev_success ev = 0"

fun ev_xfered :: "event \<Rightarrow> nat" where
  "ev_xfered (Wait_for_req p oc) = bytes_xfered oc"
| "ev_xfered ev = 0"

fun ev_counted :: "event \<Rightarrow> nat" where
  "ev_counted (Num_wr_blocks blocks) = (if blocks \<noteq> - 1 then unat (push_bit 9 blocks) else 0)"
| "ev_counted ev = 0"

fun ev_transfer :: "event \<Rightarrow> nat" where
  "ev_transfer (Wait_for_req p oc) = 1"
| "ev_transfer ev = 0"

definition reported_bytes :: "event list \<Rightarrow> nat" where
  "reported_bytes tr = sum_list (map ev_reported tr)"

definition success_bytes :: "event list \<Rightarrow> nat" where
  "success_bytes tr = sum_list (map ev_success tr)"

definition xfered_bytes :: "event list \<Rightarrow> nat" where
  "xfered_bytes tr = sum_list (map ev_xfered tr)"

definition counted_bytes :: "event list \<Rightarrow> nat" where
  "counted_bytes tr = sum_list (map ev_counted tr)"

definition transfers :: "event list \<Rightarrow> nat" where
  "transfers tr = sum_list (map ev_transfer tr)"

text \<open>
  The host's side of the contract: a transfer never moves more than was planned, and a
  transfer that flags no error moved all of it.
\<close>

fun ev_conforms :: "event \<Rightarrow> bool" where
  "ev_conforms (Wait_for_req p oc) \<longleftrightarrow>
     bytes_xfered oc \<le> 512 * pl_blocks p
     \<and> (\<not> brq_failed p oc \<longrightarrow> bytes_xfered oc = 512 * pl_blocks p)"
| "ev_conforms ev \<longleftrightarrow> True"

definition host_conforms :: "event list \<Rightarrow> bool" where
  "host_conforms tr \<longleftrightarrow> list_all ev_conforms tr"

text \<open>
  What the termination argument asks of the environment: a transfer without command
  or data error reports a positive number of whole sectors, and the clock passes the
  budget of each status poll: \<^verbatim>\<open>time_after(jiffies, delay)\<close> holds at one of the
  status commands from the 1025th on, where the counter \<^verbatim>\<open>i\<close> is at least 1024 and
  \<^verbatim>\<open>fls(i) > 10\<close>. \<open>polls_return\<close> says that the polling loop leaves on the answers
  it is given.
\<close>

definition xfer_ok :: "cycle_env \<Rightarrow> bool" where
  "xfer_ok e \<longleftrightarrow>
     (cmd_error (ce_xfer e) = 0 \<and> data_error (ce_xfer e) = 0
        \<longrightarrow> 512 \<le> bytes_xfered (ce_xfer e) \<and> 512 dvd bytes_xfered (ce_xfer e))"

definition clock_passes :: "cycle_env \<Rightarrow> bool" where
  "clock_passes e \<longleftrightarrow> list_ex po_late (drop 1024 (ce_polls e))"

definition env_ok :: "mmc_card \<Rightarrow> request \<Rightarrow> cycle_env \<Rightarrow> bool" where
  "env_ok c req e \<longleftrightarrow>
     (blk_rq_bytes req \<noteq> 0 \<longrightarrow> xfer_ok e)
     \<and> (\<not> host_spi c \<and> rq_dir req \<noteq> READ \<longrightarrow> clock_passes e)"

definition polls_return :: "cycle_env \<Rightarrow> bool" where
  "polls_return e \<longleftrightarrow> status_poll False (ce_polls e) 0 init_rstate \<noteq> None"

text \<open>Calls that complete nothing and move nothing.\<close>

fun silent :: "event \<Rightarrow> bool" where
  "silent (Wait_for_req p oc) \<longleftrightarrow> False"
| "silent (End_request err n) \<longleftrightarrow> False"
| "silent (Num_wr_blocks blocks) \<longleftrightarrow> False"
| "silent ev \<longleftrightarrow> True"

text \<open>
  The state between two cycles has no recovery action pending, and \<^verbatim>\<open>try_recovery\<close>
  has only grown from 1. The bound on the cycles still to come counts two cycles for
  every sector left (a multi-block attempt and a single-block transfer), two for the
  reinitialisation rung while it is unused, and one for the next degradation.
\<close>

definition settled :: "rstate \<Rightarrow> bool" where
  "settled st \<longleftrightarrow> \<not> rs_do_reinit st \<and> \<not> rs_do_remove st \<and> 1 \<le> rs_try_recovery st"

text \<open>
  Inside a cycle, after the status poll, at most one action is pending, and a pending
  reinitialisation means the first rung has been used.
\<close>

definition armed :: "rstate \<Rightarrow> bool" where
  "armed st \<longleftrightarrow> 1 \<le> rs_try_recovery st \<and> \<not> (rs_do_reinit st \<and> rs_do_remove st)
     \<and> (rs_do_reinit st \<longrightarrow> 2 \<le> rs_try_recovery st)"

definition cycles_left :: "request \<Rightarrow> rstate \<Rightarrow> nat" where
  "cycles_left req st =
     2 * blk_rq_sectors req + (if rs_try_recovery st = 1 then 2 else 0)
       + (if rs_disable_multi st then 0 else 1)"

section \<open>Example devices, requests and answers\<close>

text \<open>
  An SD card and an eMMC card behind a host that is not SPI; a transfer that moved \<open>n\<close>
  bytes without error, one whose data phase timed out, one whose command the card
  never answered and one that moved \<open>n\<close> bytes before its stop command timed out;
  the answers of one cycle around a transfer (the card ready at the first status poll,
  reinitialisation working), and the same with a card that stays busy while the clock
  passes the budget at the 1025th status command; a written-blocks query that succeeds
  with a given count; a request of \<open>n\<close> sectors at sector 100.
\<close>

definition sd_card :: mmc_card where
  "sd_card = \<lparr>card_sd = True, card_blockaddr = True, host_spi = False, max_blk_count = 128\<rparr>"

definition emmc_card :: mmc_card where
  "emmc_card = \<lparr>card_sd = False, card_blockaddr = True, host_spi = False, max_blk_count = 128\<rparr>"

definition xfer_done :: "nat \<Rightarrow> outcome" where
  "xfer_done n = \<lparr>cmd_error = 0, data_error = 0, stop_error = 0, bytes_xfered = n\<rparr>"

definition xfer_timeout :: outcome where
  "xfer_timeout = \<lparr>cmd_error = 0, data_error = - 110, stop_error = 0, bytes_xfered = 0\<rparr>"

definition xfer_rejected :: outcome where
  "xfer_rejected = \<lparr>cmd_error = - 110, data_error = 0, stop_error = 0, bytes_xfered = 0\<rparr>"

definition xfer_stop_failed :: "nat \<Rightarrow> outcome" where
  "xfer_stop_failed n = \<lparr>cmd_error = 0, data_error = 0, stop_error = - 110, bytes_xfered = n\<rparr>"

definition answer :: "outcome \<Rightarrow> cycle_env" where
  "answer oc = \<lparr>ce_xfer = oc, ce_polls = [\<lparr>po_err = 0, po_resp = 0x900, po_late = False\<rparr>],
                 ce_removed = False, ce_reinit = 0\<rparr>"

definition answer_late :: "outcome \<Rightarrow> cycle_env" where
  "answer_late oc =
     \<lparr>ce_xfer = oc,
      ce_polls = replicate 1024 \<lparr>po_err = 0, po_resp = 0, po_late = False\<rparr>
                   @ [\<lparr>po_err = 0, po_resp = 0, po_late = True\<rparr>],
      ce_removed = False, ce_reinit = 0\<rparr>"

definition counted :: "32 word \<Rightarrow> wr_blocks_env" where
  "counted n = \<lparr>wb_app_err = 0, wb_app_resp = 0x120, wb_alloc_failed = False,
                 wb_cmd_error = 0, wb_data_error = 0, wb_blocks = n\<rparr>"

definition rw_request :: "dir \<Rightarrow> nat \<Rightarrow> request" where
  "rw_request d n = \<lparr>rq_dir = d, rq_sector = 100, rq_segs = (if n = 0 then [] else [512 * n])\<rparr>"

section \<open>Evaluating the model\<close>

lemmas run_defs = mmc_blk_issue_rq_def cycle_def mmc_blk_plan_def brq_failed_def
  recover.simps ladder_def cmd_err_def fail_rest.simps mmc_sd_num_wr_blocks_def
  blk_end_request_def blk_rq_sectors_def blk_rq_bytes_def blk_rq_cur_bytes_def
  poll_step_def poll_msleep_def card_ready_def card_busy_def fls.simps
  R1_READY_FOR_DATA_def R1_CURRENT_STATE_def R1_APP_CMD_def EIO_def init_rstate_def
  sd_card_def emmc_card_def xfer_done_def xfer_timeout_def xfer_rejected_def
  xfer_stop_failed_def answer_def
  counted_def rw_request_def transfers_def reported_bytes_def success_bytes_def
  xfered_bytes_def counted_bytes_def Let_def

section \<open>Opening a read-only device\<close>

text \<open>
  C10. Opening a live read-only device for writing: \<^verbatim>\<open>mmc_blk_open\<close> answers
  \<open>- EROFS\<close> and gives back the reference it took, so the usage count (and with it
  the whole handle) is what it was before, and nothing is torn down. Opening the same
  device without the write bit answers 0 and keeps the reference. A handle is live
  while its usage count is not zero: \<^verbatim>\<open>mmc_blk_put\<close> frees it when the count reaches
  zero.
\<close>

theorem mmc_blk_open_read_only:
  assumes "private_data d = Some md" and "usage md \<noteq> 0" and "read_only md \<noteq> 0"
  shows "(wmode AND FMODE_WRITE \<noteq> 0 \<longrightarrow>
            fst (mmc_blk_open d wmode) = - EROFS
            \<and> private_data (snd (mmc_blk_open d wmode)) = Some md
            \<and> torn_down (snd (mmc_blk_open d wmode)) = torn_down d)
       \<and> (rmode AND FMODE_WRITE = 0 \<longrightarrow>
            fst (mmc_blk_open d rmode) = 0
            \<and> private_data (snd (mmc_blk_open d rmode)) = Some (md\<lparr>usage := usage md + 1\<rparr>)
            \<and> torn_down (snd (mmc_blk_open d rmode)) = torn_down d)"
  using assms
  by (simp add: mmc_blk_open_def mmc_blk_get_def mmc_blk_put_def Let_def)

theorem mmc_blk_open_read_only_witness:
  "fst (mmc_blk_open \<lparr>private_data = Some \<lparr>usage = 1, read_only = 1\<rparr>, torn_down = False,
                      disk_checks = 0\<rparr> 3) = - EROFS
   \<and> private_data (snd (mmc_blk_open \<lparr>private_data = Some \<lparr>usage = 1, read_only = 1\<rparr>,
                      torn_down = False, disk_checks = 0\<rparr> 3)) = Some \<lparr>usage = 1, read_only = 1\<rparr>
   \<and> fst (mmc_blk_open \<lparr>private_data = Some \<lparr>usage = 1, read_only = 1\<rparr>, torn_down = False,
                      disk_checks = 0\<rparr> 1) = 0
   \<and> private_data (snd (mmc_blk_open \<lparr>private_data = Some \<lparr>usage = 1, read_only = 1\<rparr>,
                      torn_down = False, disk_checks = 0\<rparr> 1)) = Some \<lparr>usage = 2, read_only = 1\<rparr>"
  using mmc_blk_open_read_only [of "\<lparr>private_data = Some \<lparr>usage = 1, read_only = 1\<rparr>,
      torn_down = False, disk_checks = 0\<rparr>" "\<lparr>usage = 1, read_only = 1\<rparr>" 3 1]
  by (simp add: FMODE_WRITE_def)

section \<open>The delay between status polls\<close>

lemma fls_le_iff: "fls n \<le> k \<longleftrightarrow> n < 2 ^ k"
proof (induction k arbitrary: n)
  case 0
  show ?case by (subst fls.simps) simp
next
  case (Suc k)
  have "fls n \<le> Suc k \<longleftrightarrow> n = 0 \<or> fls (n div 2) \<le> k"
    by (subst fls.simps) simp
  also have "\<dots> \<longleftrightarrow> n = 0 \<or> n div 2 < 2 ^ k"
    by (simp add: Suc.IH)
  also have "\<dots> \<longleftrightarrow> n < 2 ^ Suc k"
    by auto
  finally show ?case .
qed


lemma fls_double: "0 < n \<Longrightarrow> fls (2 * n) = Suc (fls n)"
  by (subst fls.simps) simp

lemma fls_gt_iff: "k < fls n \<longleftrightarrow> 2 ^ k \<le> n"
  using fls_le_iff [of n k] by auto





section \<open>Leaving the status poll\<close>

text \<open>
  C8, as the code has it. The polling loop looks at the clock only once at least 1024
  polls have been made (\<^verbatim>\<open>fls(i) > 10\<close>, which is \<open>1024 \<le> i\<close>): before that, a poll
  does the same whether the budget has elapsed or not. When the budget has elapsed and
  the poll count has reached that mark, a status answer without error ends the loop:
  as success if the card reports ready-for-data in the transfer state, and otherwise as
  not ready, which sets \<^verbatim>\<open>err\<close>, counts \<^verbatim>\<open>card_no_ready\<close>, advances
  \<^verbatim>\<open>try_recovery\<close> by one and schedules a reinitialisation when \<^verbatim>\<open>try_recovery\<close>
  was 1, a removal when the card is SD and \<^verbatim>\<open>try_recovery\<close> was 2, and nothing
  otherwise.
\<close>

theorem poll_exit_after_budget:
  "(po_err p = 0 \<and> po_late p \<and> 1024 \<le> i \<longrightarrow>
      (\<exists>evs st'. status_poll sd (p # ps) i st = Some (evs, False, st')
         \<and> (card_ready (po_resp p) \<longrightarrow> st' = st\<lparr>rs_err := 0\<rparr>)
         \<and> (\<not> card_ready (po_resp p) \<longrightarrow>
               rs_err st' = 1
             \<and> rs_card_no_ready st' = rs_card_no_ready st + 1
             \<and> rs_try_recovery st' = rs_try_recovery st + 1
             \<and> (rs_do_reinit st' \<longleftrightarrow> rs_do_reinit st \<or> rs_try_recovery st = 1)
             \<and> (rs_do_remove st' \<longleftrightarrow>
                   rs_do_remove st \<or> (sd \<and> rs_try_recovery st = 2)))))
   \<and> (i < 1024 \<longrightarrow>
         poll_step sd i (p\<lparr>po_late := True\<rparr>) st = poll_step sd i (p\<lparr>po_late := False\<rparr>) st
       \<and> status_poll sd (p\<lparr>po_late := True\<rparr> # ps) i st
           = status_poll sd (p\<lparr>po_late := False\<rparr> # ps) i st)
   \<and> (10 < fls i \<longleftrightarrow> 1024 \<le> i)"
proof -
  have f: "10 < fls i \<longleftrightarrow> 1024 \<le> i" using fls_gt_iff [of 10 i] by simp
  have late: "\<exists>evs st'. status_poll sd (p # ps) i st = Some (evs, False, st')
         \<and> (card_ready (po_resp p) \<longrightarrow> st' = st\<lparr>rs_err := 0\<rparr>)
         \<and> (\<not> card_ready (po_resp p) \<longrightarrow>
               rs_err st' = 1
             \<and> rs_card_no_ready st' = rs_card_no_ready st + 1
             \<and> rs_try_recovery st' = rs_try_recovery st + 1
             \<and> (rs_do_reinit st' \<longleftrightarrow> rs_do_reinit st \<or> rs_try_recovery st = 1)
             \<and> (rs_do_remove st' \<longleftrightarrow>
                   rs_do_remove st \<or> (sd \<and> rs_try_recovery st = 2)))"
    if "po_err p = 0" "po_late p" "1024 \<le> i"
    using that f by (auto simp: poll_step_def ladder_def Let_def)
  have early: "poll_step sd i (p\<lparr>po_late := True\<rparr>) st = poll_step sd i (p\<lparr>po_late := False\<rparr>) st"
    if "i < 1024"
    using that f by (simp add: poll_step_def Let_def)
  from late early f show ?thesis by simp
qed

theorem poll_exit_after_budget_witness:
  "(\<exists>evs. status_poll True [\<lparr>po_err = 0, po_resp = 0x900, po_late = True\<rparr>] 1024 init_rstate
        = Some (evs, False, init_rstate\<lparr>rs_err := 0\<rparr>))
   \<and> (\<exists>evs st'. status_poll True [\<lparr>po_err = 0, po_resp = 0xE00, po_late = True\<rparr>] 1024 init_rstate
        = Some (evs, False, st') \<and> rs_err st' = 1 \<and> rs_card_no_ready st' = 1
          \<and> rs_try_recovery st' = 2 \<and> rs_do_reinit st' \<and> \<not> rs_do_remove st')
   \<and> poll_step False 1023 \<lparr>po_err = 0, po_resp = 0xE00, po_late = True\<rparr> init_rstate
     = poll_step False 1023 \<lparr>po_err = 0, po_resp = 0xE00, po_late = False\<rparr> init_rstate"
proof -
  have r: "card_ready 0x900" "\<not> card_ready 0xE00"
    by (simp_all add: card_ready_def R1_READY_FOR_DATA_def R1_CURRENT_STATE_def)
  show ?thesis
    using poll_exit_after_budget [of "\<lparr>po_err = 0, po_resp = 0x900, po_late = True\<rparr>" 1024 True "[]" init_rstate]
      poll_exit_after_budget [of "\<lparr>po_err = 0, po_resp = 0xE00, po_late = True\<rparr>" 1024 True "[]" init_rstate]
      poll_exit_after_budget [of "\<lparr>po_err = 0, po_resp = 0xE00, po_late = False\<rparr>" 1023 False "[]" init_rstate]
      r
    by (simp add: init_rstate_def numeral_2_eq_2 del: status_poll.simps)
qed

text \<open>
  The claim C8 as stated lets the elapsed budget alone end the poll. With the budget
  elapsed at the third poll and the card still busy the loop polls again (three
  answers are not enough for it to return), and so it does at poll 1023, while at
  poll 1024 it leaves; and at \<^verbatim>\<open>try_recovery = 2\<close> on a card that is not SD the
  not-ready exit schedules no reinitialisation.
\<close>

theorem poll_late_before_1024_polls:
  "status_poll False [\<lparr>po_err = 0, po_resp = 0xE00, po_late = False\<rparr>,
                      \<lparr>po_err = 0, po_resp = 0xE00, po_late = False\<rparr>,
                      \<lparr>po_err = 0, po_resp = 0xE00, po_late = True\<rparr>] 0 init_rstate = None
   \<and> fst (snd (poll_step False 2 \<lparr>po_err = 0, po_resp = 0xE00, po_late = True\<rparr> init_rstate))
       = Poll_again
   \<and> fst (snd (poll_step False 1023 \<lparr>po_err = 0, po_resp = 0xE00, po_late = True\<rparr> init_rstate))
       = Poll_again
   \<and> fst (snd (poll_step False 1024 \<lparr>po_err = 0, po_resp = 0xE00, po_late = True\<rparr> init_rstate))
       = Poll_break
   \<and> \<not> rs_do_reinit (snd (snd (poll_step False 1024 \<lparr>po_err = 0, po_resp = 0xE00, po_late = True\<rparr>
                                  (init_rstate\<lparr>rs_try_recovery := 2\<rparr>))))"
  by (simp add: poll_step_def poll_msleep_def fls.simps card_ready_def card_busy_def
      R1_READY_FOR_DATA_def R1_CURRENT_STATE_def ladder_def init_rstate_def)

section \<open>The branches of the recovery block\<close>

lemma recover_reinit:
  "rs_do_reinit st \<Longrightarrow> recover c e failed bx req st =
     (if ce_removed e then ([], Goto_cmd_err req (st\<lparr>rs_do_reinit := False\<rparr>))
      else if ce_reinit e = 0
      then ([Reinit_card 0, Set_blksize], Next req (st\<lparr>rs_do_reinit := False, rs_err := 0\<rparr>))
      else (Reinit_card (ce_reinit e) # (if card_sd c then [Remove_card] else []),
            Goto_cmd_err req (st\<lparr>rs_do_reinit := False, rs_err := ce_reinit e\<rparr>)))"
  by (subst recover.simps) simp

lemma recover_remove:
  "\<not> rs_do_reinit st \<Longrightarrow> rs_do_remove st \<Longrightarrow>
   recover c e failed bx req st = ([Remove_card], Goto_cmd_err req (st\<lparr>rs_do_remove := False\<rparr>))"
  by (subst recover.simps) simp

lemma recover_success:
  "\<not> rs_do_reinit st \<Longrightarrow> \<not> rs_do_remove st \<Longrightarrow> \<not> failed \<Longrightarrow> rs_card_no_ready st = 0 \<Longrightarrow>
   recover c e failed bx req st =
     ([End_request 0 bx],
      Next (snd (blk_end_request req bx)) (st\<lparr>rs_ret := fst (blk_end_request req bx)\<rparr>))"
  by (subst recover.simps) simp

lemma recover_failure:
  "\<not> rs_do_reinit st \<Longrightarrow> \<not> rs_do_remove st \<Longrightarrow> failed \<or> rs_card_no_ready st \<noteq> 0 \<Longrightarrow>
   recover c e failed bx req st =
     (if rs_try_recovery st = 1 \<or> (card_sd c \<and> rs_try_recovery st = 2)
      then recover c e failed bx req (ladder (card_sd c) st)
      else if rq_dir req = READ
      then ([End_request (- EIO) 512],
            Next (snd (blk_end_request req 512))
                 (st\<lparr>rs_try_recovery := rs_try_recovery st + 1,
                     rs_ret := fst (blk_end_request req 512)\<rparr>))
      else ([], Goto_cmd_err req (st\<lparr>rs_try_recovery := rs_try_recovery st + 1\<rparr>)))"
  by (subst recover.simps) (auto simp: ladder_def)

section \<open>Degrading a multi-block read\<close>

lemma plan_degraded:
  "pl_blocks (mmc_blk_plan c True req) \<le> 1"
  by (simp add: mmc_blk_plan_def Let_def)

text \<open>
  C3. A transfer of more than one block that fails in a read request, whichever of the
  command, data or stop errors is set: the cycle makes no call besides the transfer
  itself (no status query, no completion), leaves the request and \<^verbatim>\<open>try_recovery\<close>
  as they were and only sets \<^verbatim>\<open>disable_multi\<close>. The cycle after it, whatever the
  environment answers, hands a single-block read with the same argument (the request's
  current position) to the host; when that transfer succeeds (no action pending, the
  card not flagged unready) the cycle completes its bytes and reports no error. With
  \<^verbatim>\<open>ret\<close> set, the loop runs exactly these two cycles one after the other and ends or
  goes on as the second one says.
\<close>

theorem multi_block_read_error_degrades:
  assumes "rq_dir req = READ"
    and "1 < pl_blocks (mmc_blk_plan c (rs_disable_multi st) req)"
    and "cmd_error (ce_xfer e) \<noteq> 0 \<or> data_error (ce_xfer e) \<noteq> 0 \<or> stop_error (ce_xfer e) \<noteq> 0"
  shows "cycle c e req st =
           Some ([Wait_for_req (mmc_blk_plan c (rs_disable_multi st) req) (ce_xfer e)],
                 Next req (st\<lparr>rs_disable_multi := True\<rparr>))
       \<and> pl_blocks (mmc_blk_plan c True req) = 1
       \<and> pl_opcode (mmc_blk_plan c True req) = MMC_READ_SINGLE_BLOCK
       \<and> pl_arg (mmc_blk_plan c True req) = pl_arg (mmc_blk_plan c (rs_disable_multi st) req)
       \<and> (rs_ret st \<longrightarrow>
            issue_loop c q (e # es) req st =
              (case issue_loop c q es req (st\<lparr>rs_disable_multi := True\<rparr>) of
                 None \<Rightarrow> None
               | Some (evs, r) \<Rightarrow>
                   Some (Wait_for_req (mmc_blk_plan c (rs_disable_multi st) req) (ce_xfer e) # evs, r)))
       \<and> (\<exists>rest fl. cycle c e' req (st\<lparr>rs_disable_multi := True\<rparr>) =
              Some (Wait_for_req (mmc_blk_plan c True req) (ce_xfer e') # rest, fl)
            \<and> (\<not> brq_failed (mmc_blk_plan c True req) (ce_xfer e')
                 \<and> \<not> rs_do_reinit st \<and> \<not> rs_do_remove st \<and> rs_card_no_ready st = 0 \<longrightarrow>
                 rest = [End_request 0 (bytes_xfered (ce_xfer e'))])
            \<and> (rs_ret st \<longrightarrow>
                 issue_loop c q (e # e' # es) req st =
                   (case fl of
                      Goto_cmd_err req' st' \<Rightarrow>
                        Some (Wait_for_req (mmc_blk_plan c (rs_disable_multi st) req) (ce_xfer e)
                                # Wait_for_req (mmc_blk_plan c True req) (ce_xfer e') # rest
                                @ cmd_err c q (bytes_xfered (ce_xfer e')) req' st', 0)
                    | Next req' st' \<Rightarrow>
                        if rs_ret st'
                        then (case issue_loop c q es req' st' of
                                None \<Rightarrow> None
                              | Some (evs, r) \<Rightarrow>
                                  Some (Wait_for_req (mmc_blk_plan c (rs_disable_multi st) req) (ce_xfer e)
                                          # Wait_for_req (mmc_blk_plan c True req) (ce_xfer e') # rest
                                          @ evs, r))
                        else Some (Wait_for_req (mmc_blk_plan c (rs_disable_multi st) req) (ce_xfer e)
                                     # Wait_for_req (mmc_blk_plan c True req) (ce_xfer e') # rest
                                     @ [Release_host], 1))))"
proof -
  define st1 where "st1 = st\<lparr>rs_disable_multi := True\<rparr>"
  define w where "w = Wait_for_req (mmc_blk_plan c (rs_disable_multi st) req) (ce_xfer e)"
  define w' where "w' = Wait_for_req (mmc_blk_plan c True req) (ce_xfer e')"
  define failed' where "failed' = brq_failed (mmc_blk_plan c True req) (ce_xfer e')"
  have "pl_stop (mmc_blk_plan c (rs_disable_multi st) req)"
    using assms(1,2) by (simp add: mmc_blk_plan_def Let_def split: if_splits)
  with assms(3) have f: "brq_failed (mmc_blk_plan c (rs_disable_multi st) req) (ce_xfer e)"
    by (auto simp: brq_failed_def)
  have cy: "cycle c e req st = Some ([w], Next req st1)"
    using assms(1,2) f by (simp add: cycle_def Let_def w_def st1_def)
  have pl: "pl_blocks (mmc_blk_plan c True req) = 1
       \<and> pl_opcode (mmc_blk_plan c True req) = MMC_READ_SINGLE_BLOCK
       \<and> pl_arg (mmc_blk_plan c True req) = pl_arg (mmc_blk_plan c (rs_disable_multi st) req)"
    using assms(1,2) by (simp add: mmc_blk_plan_def Let_def split: if_splits)
  have one: "rs_ret st \<longrightarrow> issue_loop c q (e # es) req st =
      (case issue_loop c q es req st1 of None \<Rightarrow> None | Some (evs, r) \<Rightarrow> Some (w # evs, r))"
    using cy by (simp add: st1_def split: option.splits)
  have rr: "rs_ret st1 = rs_ret st"
    by (simp add: st1_def)
  define st2 where "st2 = (if failed' then st1 else st1\<lparr>rs_disable_multi := False\<rparr>)"
  obtain revs fl where r: "recover c e' failed' (bytes_xfered (ce_xfer e')) req st2 = (revs, fl)"
    by (cases "recover c e' failed' (bytes_xfered (ce_xfer e')) req st2")
  define rest where "rest = (if failed' then [Get_card_status] else []) @ revs"
  have cy': "cycle c e' req st1 = Some (w' # rest, fl)"
  proof (cases failed')
    case True
    with r assms(1) pl show ?thesis
      by (simp add: cycle_def Let_def w'_def rest_def failed'_def st1_def st2_def)
  next
    case False
    with r assms(1) pl show ?thesis
      by (simp add: cycle_def Let_def w'_def rest_def failed'_def st1_def st2_def)
  qed
  have succ: "\<not> failed' \<and> \<not> rs_do_reinit st \<and> \<not> rs_do_remove st \<and> rs_card_no_ready st = 0
      \<longrightarrow> rest = [End_request 0 (bytes_xfered (ce_xfer e'))]"
    using r by (auto simp: rest_def st2_def st1_def recover_success)
  have two: "rs_ret st \<longrightarrow>
      issue_loop c q (e # e' # es) req st =
        (case fl of
           Goto_cmd_err req' st' \<Rightarrow>
             Some (w # w' # rest @ cmd_err c q (bytes_xfered (ce_xfer e')) req' st', 0)
         | Next req' st' \<Rightarrow>
             if rs_ret st'
             then (case issue_loop c q es req' st' of
                     None \<Rightarrow> None
                   | Some (evs, r) \<Rightarrow> Some (w # w' # rest @ evs, r))
             else Some (w # w' # rest @ [Release_host], 1))"
    using cy cy' rr by (cases fl) (simp_all split: option.splits)
  have ex: "\<exists>rest fl. cycle c e' req st1 = Some (w' # rest, fl)
      \<and> (\<not> failed' \<and> \<not> rs_do_reinit st \<and> \<not> rs_do_remove st \<and> rs_card_no_ready st = 0
           \<longrightarrow> rest = [End_request 0 (bytes_xfered (ce_xfer e'))])
      \<and> (rs_ret st \<longrightarrow>
          issue_loop c q (e # e' # es) req st =
            (case fl of
               Goto_cmd_err req' st' \<Rightarrow>
                 Some (w # w' # rest @ cmd_err c q (bytes_xfered (ce_xfer e')) req' st', 0)
             | Next req' st' \<Rightarrow>
                 if rs_ret st'
                 then (case issue_loop c q es req' st' of
                         None \<Rightarrow> None
                       | Some (evs, r) \<Rightarrow> Some (w # w' # rest @ evs, r))
                 else Some (w # w' # rest @ [Release_host], 1)))"
    by (intro exI conjI) (rule cy' succ two)+
  from cy pl one ex show ?thesis
    unfolding w_def w'_def st1_def failed'_def by (intro conjI) simp_all
qed

theorem multi_block_read_error_degrades_witness:
  "cycle sd_card (answer xfer_timeout) (rw_request READ 8) init_rstate
     = Some ([Wait_for_req \<lparr>pl_opcode = MMC_READ_MULTIPLE_BLOCK, pl_arg = 100, pl_blocks = 8,
                            pl_stop = True\<rparr> xfer_timeout],
             Next (rw_request READ 8) (init_rstate\<lparr>rs_disable_multi := True\<rparr>))
   \<and> pl_blocks (mmc_blk_plan sd_card True (rw_request READ 8)) = 1
   \<and> pl_arg (mmc_blk_plan sd_card True (rw_request READ 8)) = 100
   \<and> cycle sd_card (answer (xfer_done 512)) (rw_request READ 8)
         (init_rstate\<lparr>rs_disable_multi := True\<rparr>)
     = Some ([Wait_for_req \<lparr>pl_opcode = MMC_READ_SINGLE_BLOCK, pl_arg = 100, pl_blocks = 1,
                            pl_stop = False\<rparr> (xfer_done 512),
              End_request 0 512],
             Next \<lparr>rq_dir = READ, rq_sector = 101, rq_segs = [3584]\<rparr> init_rstate)
   \<and> issue_loop emmc_card (counted 0)
         [answer xfer_timeout, (answer xfer_timeout)\<lparr>ce_removed := True\<rparr>]
         (rw_request READ 2) init_rstate
     = Some ([Wait_for_req \<lparr>pl_opcode = MMC_READ_MULTIPLE_BLOCK, pl_arg = 100, pl_blocks = 2,
                            pl_stop = True\<rparr> xfer_timeout,
              Wait_for_req \<lparr>pl_opcode = MMC_READ_SINGLE_BLOCK, pl_arg = 100, pl_blocks = 1,
                            pl_stop = False\<rparr> xfer_timeout,
              Get_card_status, End_request 0 0, Release_host, End_request (- EIO) 1024], 0)"
proof -
  have p: "mmc_blk_plan sd_card (rs_disable_multi init_rstate) (rw_request READ 8) =
      \<lparr>pl_opcode = MMC_READ_MULTIPLE_BLOCK, pl_arg = 100, pl_blocks = 8, pl_stop = True\<rparr>"
    by (simp add: run_defs)
  have h: "rq_dir (rw_request READ 8) = READ"
    "1 < pl_blocks (mmc_blk_plan sd_card (rs_disable_multi init_rstate) (rw_request READ 8))"
    "cmd_error (ce_xfer (answer xfer_timeout)) \<noteq> 0
       \<or> data_error (ce_xfer (answer xfer_timeout)) \<noteq> 0
       \<or> stop_error (ce_xfer (answer xfer_timeout)) \<noteq> 0"
    by (simp_all add: p) (simp_all add: run_defs)
  have p': "mmc_blk_plan emmc_card (rs_disable_multi init_rstate) (rw_request READ 2) =
      \<lparr>pl_opcode = MMC_READ_MULTIPLE_BLOCK, pl_arg = 100, pl_blocks = 2, pl_stop = True\<rparr>"
    by (simp add: run_defs)
  have h': "rq_dir (rw_request READ 2) = READ"
    "1 < pl_blocks (mmc_blk_plan emmc_card (rs_disable_multi init_rstate) (rw_request READ 2))"
    by (simp_all add: p') (simp_all add: run_defs)
  have q: "mmc_blk_plan sd_card True (rw_request READ 8) =
      \<lparr>pl_opcode = MMC_READ_SINGLE_BLOCK, pl_arg = 100, pl_blocks = 1, pl_stop = False\<rparr>"
    "mmc_blk_plan emmc_card True (rw_request READ 2) =
      \<lparr>pl_opcode = MMC_READ_SINGLE_BLOCK, pl_arg = 100, pl_blocks = 1, pl_stop = False\<rparr>"
    by (simp_all add: run_defs)
  have c2: "cycle sd_card (answer (xfer_done 512)) (rw_request READ 8)
         (init_rstate\<lparr>rs_disable_multi := True\<rparr>)
     = Some ([Wait_for_req \<lparr>pl_opcode = MMC_READ_SINGLE_BLOCK, pl_arg = 100, pl_blocks = 1,
                            pl_stop = False\<rparr> (xfer_done 512),
              End_request 0 512],
             Next \<lparr>rq_dir = READ, rq_sector = 101, rq_segs = [3584]\<rparr> init_rstate)"
    by (simp add: run_defs)
  have c2': "cycle emmc_card ((answer xfer_timeout)\<lparr>ce_removed := True\<rparr>) (rw_request READ 2)
         (init_rstate\<lparr>rs_disable_multi := True\<rparr>)
     = Some ([Wait_for_req \<lparr>pl_opcode = MMC_READ_SINGLE_BLOCK, pl_arg = 100, pl_blocks = 1,
                            pl_stop = False\<rparr> xfer_timeout,
              Get_card_status],
             Goto_cmd_err (rw_request READ 2)
               (init_rstate\<lparr>rs_disable_multi := True, rs_try_recovery := 2\<rparr>))"
    by (simp add: run_defs)
  have e: "cmd_err emmc_card (counted 0) 0 (rw_request READ 2)
         (init_rstate\<lparr>rs_disable_multi := True, rs_try_recovery := 2\<rparr>)
     = [End_request 0 0, Release_host, End_request (- EIO) 1024]"
    by (simp add: run_defs)
  have r: "rs_ret init_rstate" "ce_xfer (answer xfer_timeout) = xfer_timeout"
    "ce_xfer ((answer xfer_timeout)\<lparr>ce_removed := True\<rparr>) = xfer_timeout"
    "bytes_xfered xfer_timeout = 0"
    by (simp_all add: init_rstate_def answer_def xfer_timeout_def)
  note t = multi_block_read_error_degrades [OF h, of "counted 0" "[]" "answer (xfer_done 512)"]
  note t' = multi_block_read_error_degrades [OF h' h(3), of "counted 0" "[]"
        "(answer xfer_timeout)\<lparr>ce_removed := True\<rparr>"]
  from t have a: "cycle sd_card (answer xfer_timeout) (rw_request READ 8) init_rstate
     = Some ([Wait_for_req \<lparr>pl_opcode = MMC_READ_MULTIPLE_BLOCK, pl_arg = 100, pl_blocks = 8,
                            pl_stop = True\<rparr> xfer_timeout],
             Next (rw_request READ 8) (init_rstate\<lparr>rs_disable_multi := True\<rparr>))
   \<and> pl_blocks (mmc_blk_plan sd_card True (rw_request READ 8)) = 1
   \<and> pl_arg (mmc_blk_plan sd_card True (rw_request READ 8)) = 100"
    unfolding p r by (simp del: issue_loop.simps)
  from t' obtain rest fl where
      b: "cycle emmc_card ((answer xfer_timeout)\<lparr>ce_removed := True\<rparr>) (rw_request READ 2)
            (init_rstate\<lparr>rs_disable_multi := True\<rparr>)
          = Some (Wait_for_req (mmc_blk_plan emmc_card True (rw_request READ 2))
                    (ce_xfer ((answer xfer_timeout)\<lparr>ce_removed := True\<rparr>)) # rest, fl)"
      and l: "rs_ret init_rstate \<longrightarrow>
        issue_loop emmc_card (counted 0)
          [answer xfer_timeout, (answer xfer_timeout)\<lparr>ce_removed := True\<rparr>]
          (rw_request READ 2) init_rstate =
          (case fl of
             Goto_cmd_err req' st' \<Rightarrow>
               Some (Wait_for_req (mmc_blk_plan emmc_card (rs_disable_multi init_rstate)
                                     (rw_request READ 2)) (ce_xfer (answer xfer_timeout))
                       # Wait_for_req (mmc_blk_plan emmc_card True (rw_request READ 2))
                           (ce_xfer ((answer xfer_timeout)\<lparr>ce_removed := True\<rparr>)) # rest
                       @ cmd_err emmc_card (counted 0)
                           (bytes_xfered (ce_xfer ((answer xfer_timeout)\<lparr>ce_removed := True\<rparr>)))
                           req' st', 0)
           | Next req' st' \<Rightarrow>
               if rs_ret st'
               then (case issue_loop emmc_card (counted 0) [] req' st' of
                       None \<Rightarrow> None
                     | Some (evs, r) \<Rightarrow>
                         Some (Wait_for_req (mmc_blk_plan emmc_card (rs_disable_multi init_rstate)
                                               (rw_request READ 2)) (ce_xfer (answer xfer_timeout))
                                 # Wait_for_req (mmc_blk_plan emmc_card True (rw_request READ 2))
                                     (ce_xfer ((answer xfer_timeout)\<lparr>ce_removed := True\<rparr>)) # rest
                                 @ evs, r))
               else Some (Wait_for_req (mmc_blk_plan emmc_card (rs_disable_multi init_rstate)
                                          (rw_request READ 2)) (ce_xfer (answer xfer_timeout))
                            # Wait_for_req (mmc_blk_plan emmc_card True (rw_request READ 2))
                                (ce_xfer ((answer xfer_timeout)\<lparr>ce_removed := True\<rparr>)) # rest
                            @ [Release_host], 1))"
    by blast
  from b have "rest = [Get_card_status]"
    and "fl = Goto_cmd_err (rw_request READ 2)
               (init_rstate\<lparr>rs_disable_multi := True, rs_try_recovery := 2\<rparr>)"
    unfolding c2' by simp_all
  with l have "issue_loop emmc_card (counted 0)
         [answer xfer_timeout, (answer xfer_timeout)\<lparr>ce_removed := True\<rparr>]
         (rw_request READ 2) init_rstate
     = Some ([Wait_for_req \<lparr>pl_opcode = MMC_READ_MULTIPLE_BLOCK, pl_arg = 100, pl_blocks = 2,
                            pl_stop = True\<rparr> xfer_timeout,
              Wait_for_req \<lparr>pl_opcode = MMC_READ_SINGLE_BLOCK, pl_arg = 100, pl_blocks = 1,
                            pl_stop = False\<rparr> xfer_timeout,
              Get_card_status, End_request 0 0, Release_host, End_request (- EIO) 1024], 0)"
    unfolding p' q r by (simp add: e r del: issue_loop.simps)
  with a c2 show ?thesis
    by (simp del: issue_loop.simps)
qed

section \<open>How long degraded mode lasts\<close>





section \<open>Requests without sectors\<close>

lemma cycle_first_event:
  "cycle c e req st = Some (evs, fl) \<Longrightarrow>
   \<exists>rest. evs = Wait_for_req (mmc_blk_plan c (rs_disable_multi st) req) (ce_xfer e) # rest"
  by (auto simp: cycle_def Let_def split: if_splits option.splits prod.splits bool.splits)

lemma issue_loop_first_event:
  "issue_loop c q (e # es) req st = Some (tr, r) \<Longrightarrow>
   \<exists>rest. tr = Wait_for_req (mmc_blk_plan c (rs_disable_multi st) req) (ce_xfer e) # rest"
  by (auto split: option.splits prod.splits flow.splits if_splits dest!: cycle_first_event)

text \<open>
  C7, as the code has it. \<^verbatim>\<open>mmc_blk_issue_rq\<close> has no check of the request's length.
  For a request without sectors it claims the host and hands a single-block command
  with block count 0 to the host, as the first thing it does.
\<close>

theorem zero_length_request_is_issued:
  assumes "blk_rq_sectors req = 0"
    and "mmc_blk_issue_rq c q (e # es) req = Some (tr, r)"
  shows "\<exists>rest. tr = Claim_host
           # Wait_for_req \<lparr>pl_opcode = (if rq_dir req = READ then MMC_READ_SINGLE_BLOCK
                                         else MMC_WRITE_BLOCK),
                             pl_arg = pl_arg (mmc_blk_plan c False req),
                             pl_blocks = 0, pl_stop = False\<rparr> (ce_xfer e)
           # rest"
proof -
  from assms(2) obtain evs where tr: "tr = Claim_host # evs"
    and lp: "issue_loop c q (e # es) req init_rstate = Some (evs, r)"
    by (auto simp: mmc_blk_issue_rq_def split: option.splits)
  from issue_loop_first_event [OF lp] obtain rest where
    "evs = Wait_for_req (mmc_blk_plan c (rs_disable_multi init_rstate) req) (ce_xfer e) # rest"
    by blast
  moreover have "mmc_blk_plan c (rs_disable_multi init_rstate) req =
      \<lparr>pl_opcode = (if rq_dir req = READ then MMC_READ_SINGLE_BLOCK else MMC_WRITE_BLOCK),
       pl_arg = pl_arg (mmc_blk_plan c False req), pl_blocks = 0, pl_stop = False\<rparr>"
    using assms(1) by (simp add: mmc_blk_plan_def init_rstate_def Let_def)
  ultimately show ?thesis using tr by simp
qed

theorem zero_length_request_is_issued_witness:
  "\<exists>rest. fst (the (mmc_blk_issue_rq emmc_card (counted 0) [answer (xfer_done 0)] (rw_request READ 0)))
     = Claim_host
       # Wait_for_req \<lparr>pl_opcode = MMC_READ_SINGLE_BLOCK, pl_arg = 100, pl_blocks = 0,
                       pl_stop = False\<rparr> (xfer_done 0)
       # rest"
proof -
  have z: "blk_rq_sectors (rw_request READ 0) = 0"
    by (simp add: run_defs)
  have run: "mmc_blk_issue_rq emmc_card (counted 0) [answer (xfer_done 0)] (rw_request READ 0) =
      Some ([Claim_host,
             Wait_for_req \<lparr>pl_opcode = MMC_READ_SINGLE_BLOCK, pl_arg = 100, pl_blocks = 0,
                           pl_stop = False\<rparr> (xfer_done 0),
             End_request 0 0, Release_host], 1)"
    by (simp add: run_defs)
  have a: "pl_arg (mmc_blk_plan emmc_card False (rw_request READ 0)) = 100"
    by (simp add: run_defs)
  show ?thesis
    using zero_length_request_is_issued [OF z run] a run
    by (simp add: rw_request_def answer_def)
qed

text \<open>
  The claim C7 as stated has the request rejected before any command is sent. A read
  and a write request without sectors each reach the host as a single-block command
  with block count 0, are completed with 0 bytes, and the function returns 1.
\<close>

theorem zero_length_request_reaches_the_host:
  "mmc_blk_issue_rq emmc_card (counted 0) [answer (xfer_done 0)] (rw_request READ 0) =
      Some ([Claim_host,
             Wait_for_req \<lparr>pl_opcode = MMC_READ_SINGLE_BLOCK, pl_arg = 100, pl_blocks = 0,
                           pl_stop = False\<rparr> (xfer_done 0),
             End_request 0 0, Release_host], 1)
   \<and> mmc_blk_issue_rq sd_card (counted 0) [answer (xfer_done 0)] (rw_request WRITE 0) =
      Some ([Claim_host,
             Wait_for_req \<lparr>pl_opcode = MMC_WRITE_BLOCK, pl_arg = 100, pl_blocks = 0,
                           pl_stop = False\<rparr> (xfer_done 0),
             Send_status, End_request 0 0, Release_host], 1)"
  by (simp add: run_defs)

section \<open>Fatal termination of a read on an SD card\<close>

text \<open>
  C2. The comment above \<^verbatim>\<open>cmd_err\<close> speaks of an SD card that is being written, but
  the code asks the card for its written-blocks count whenever the card is SD. An
  eight-sector read whose transfers all time out ends at \<^verbatim>\<open>cmd_err\<close> after the
  removal rung; the card answers 8 blocks (left from an earlier write), and the whole
  read is completed as success although no byte was moved, with no I/O error reported.
\<close>

theorem sd_read_failure_reported_as_success:
  "mmc_blk_issue_rq sd_card (counted 8)
     [answer xfer_timeout, answer xfer_timeout, answer xfer_timeout] (rw_request READ 8)
   = Some ([Claim_host,
            Wait_for_req \<lparr>pl_opcode = MMC_READ_MULTIPLE_BLOCK, pl_arg = 100, pl_blocks = 8,
                          pl_stop = True\<rparr> xfer_timeout,
            Wait_for_req \<lparr>pl_opcode = MMC_READ_SINGLE_BLOCK, pl_arg = 100, pl_blocks = 1,
                          pl_stop = False\<rparr> xfer_timeout,
            Get_card_status, Reinit_card 0, Set_blksize,
            Wait_for_req \<lparr>pl_opcode = MMC_READ_SINGLE_BLOCK, pl_arg = 100, pl_blocks = 1,
                          pl_stop = False\<rparr> xfer_timeout,
            Get_card_status, Remove_card,
            Num_wr_blocks 8, End_request 0 4096, Release_host], 0)"
  by (simp add: run_defs)

section \<open>Facts about requests, polls and the recovery block\<close>

lemma consume_all: "sum_list ss \<le> n \<Longrightarrow> consume n ss = []"
  by (induction ss arbitrary: n) auto

lemma sum_consume: "sum_list (consume n ss) = sum_list ss - n"
  by (induction ss arbitrary: n) auto


lemma end_request_bytes [simp]:
  "blk_rq_bytes (snd (blk_end_request req n)) = blk_rq_bytes req - n"
  by (simp add: blk_end_request_def blk_rq_bytes_def Let_def sum_consume)

lemma end_request_dir [simp]: "rq_dir (snd (blk_end_request req n)) = rq_dir req"
  by (simp add: blk_end_request_def Let_def)

lemma end_request_pending:
  "fst (blk_end_request req n) \<Longrightarrow> n < blk_rq_bytes req"
  using consume_all [of "rq_segs req" n]
  by (auto simp: blk_end_request_def blk_rq_bytes_def Let_def not_le [symmetric])


lemma sectors_decrease:
  assumes "512 dvd b" and "512 dvd n" and "512 \<le> n" and "n < (b::nat)"
  shows "(b - n) div 512 + 1 \<le> b div 512"
proof -
  from assms(1) obtain k where b: "b = 512 * k" by (elim dvdE)
  from assms(2) obtain m where n: "n = 512 * m" by (elim dvdE)
  from assms(3,4) b n have "1 \<le> m" "m < k" by auto
  moreover have "b - n = 512 * (k - m)" using b n by (simp add: diff_mult_distrib2)
  ultimately show ?thesis using b by simp
qed

lemma poll_step_exit:
  "fst (snd (poll_step sd i p st)) = fst (snd (poll_step sd' i p st'))"
  by (simp add: poll_step_def Let_def)

lemma status_poll_None:
  "status_poll sd ps i st = None \<Longrightarrow> status_poll sd' ps i st' = None"
proof (induction ps arbitrary: i st st')
  case Nil
  show ?case by simp
next
  case (Cons p ps)
  obtain evs x st1 where a: "poll_step sd i p st = (evs, x, st1)"
    by (cases "poll_step sd i p st")
  obtain evs' x' st1' where b: "poll_step sd' i p st' = (evs', x', st1')"
    by (cases "poll_step sd' i p st'")
  have xx: "x' = x" using poll_step_exit [of sd i p st sd' st'] a b by simp
  show ?case
  proof (cases x)
    case Poll_again
    with Cons.prems a have "status_poll sd ps (i + 1) st1 = None"
      by (auto split: option.splits)
    then have "status_poll sd' ps (i + 1) st1' = None" by (rule Cons.IH)
    with b xx Poll_again show ?thesis by simp
  qed (use Cons.prems a in auto)
qed

lemma status_poll_ends:
  "k < length ps \<Longrightarrow> po_late (ps ! k) \<Longrightarrow> 10 < fls (i + k) \<Longrightarrow> status_poll sd ps i st \<noteq> None"
proof (induction ps arbitrary: i k st)
  case Nil
  then show ?case by simp
next
  case (Cons p ps)
  obtain evs x st1 where a: "poll_step sd i p st = (evs, x, st1)"
    by (cases "poll_step sd i p st")
  show ?case
  proof (cases x)
    case Poll_again
    show ?thesis
    proof (cases k)
      case 0
      with Cons.prems a Poll_again show ?thesis
        by (auto simp: poll_step_def Let_def split: if_splits)
    next
      case (Suc k')
      with Cons.prems have "k' < length ps" "po_late (ps ! k')" "10 < fls (i + 1 + k')"
        by simp_all
      then have "status_poll sd ps (i + 1) st1 \<noteq> None" by (rule Cons.IH)
      with a Poll_again show ?thesis by auto
    qed
  qed (use a in auto)
qed

lemma clock_passes_returns:
  assumes "clock_passes e"
  shows "polls_return e"
proof -
  from assms obtain p where "p \<in> set (drop 1024 (ce_polls e))" and late: "po_late p"
    by (auto simp: clock_passes_def list_ex_iff)
  then obtain j where j: "j < length (drop 1024 (ce_polls e))"
      and p: "drop 1024 (ce_polls e) ! j = p"
    by (auto simp: in_set_conv_nth)
  from j have k: "1024 + j < length (ce_polls e)" by simp
  with p late have "po_late (ce_polls e ! (1024 + j))" by simp
  moreover have "10 < fls (0 + (1024 + j))"
    by (simp add: fls_gt_iff)
  ultimately have "status_poll False (ce_polls e) 0 init_rstate \<noteq> None"
    using k by (intro status_poll_ends)
  then show ?thesis by (simp add: polls_return_def)
qed

lemma poll_step_state:
  assumes "poll_step sd i p st = (evs, x, st')" and "settled st"
  shows "rs_disable_multi st' = rs_disable_multi st \<and> rs_ret st' = rs_ret st \<and> armed st'
       \<and> (rs_try_recovery st' = 1 \<or> rs_do_reinit st' \<longleftrightarrow> rs_try_recovery st = 1)
       \<and> (x = Poll_again \<longrightarrow> settled st')"
  using assms
  by (auto simp: poll_step_def Let_def settled_def armed_def ladder_def poll_msleep_def
      split: if_splits)

lemma status_poll_state:
  assumes "status_poll sd ps i st = Some (evs, gone, st')" and "settled st"
  shows "rs_disable_multi st' = rs_disable_multi st \<and> rs_ret st' = rs_ret st \<and> armed st'
       \<and> (rs_try_recovery st' = 1 \<or> rs_do_reinit st' \<longleftrightarrow> rs_try_recovery st = 1)"
  using assms
proof (induction ps arbitrary: i st evs)
  case Nil
  then show ?case by simp
next
  case (Cons p ps)
  obtain evs1 x st1 where a: "poll_step sd i p st = (evs1, x, st1)"
    by (cases "poll_step sd i p st")
  note s1 = poll_step_state [OF a Cons.prems(2)]
  show ?case
  proof (cases x)
    case Poll_again
    with Cons.prems(1) a obtain evs2 where
      r: "status_poll sd ps (i + 1) st1 = Some (evs2, gone, st')" and e: "evs = evs1 @ evs2"
      by (auto split: option.splits)
    from s1 Poll_again have "settled st1" by simp
    from Cons.IH [OF r this] s1 e Poll_again show ?thesis by (auto simp: settled_def)
  qed (use Cons.prems(1) a s1 in auto)
qed


lemma recover_next:
  assumes "recover c e failed bx req st = (revs, Next req' st')" and "armed st"
  shows "((rs_do_reinit st \<or> rs_try_recovery st = 1)
           \<and> req' = req \<and> rs_ret st' = rs_ret st \<and> rs_try_recovery st' \<noteq> 1
           \<and> revs = [Reinit_card 0, Set_blksize]
         \<or> \<not> rs_do_reinit st \<and> rs_try_recovery st \<noteq> 1 \<and> rq_dir req = READ
           \<and> req' = snd (blk_end_request req 512) \<and> rs_ret st' = fst (blk_end_request req 512)
           \<and> rs_try_recovery st' \<noteq> 1
           \<and> revs = [End_request (- EIO) 512]
         \<or> \<not> rs_do_reinit st \<and> \<not> failed
           \<and> req' = snd (blk_end_request req bx) \<and> rs_ret st' = fst (blk_end_request req bx)
           \<and> rs_try_recovery st' = rs_try_recovery st
           \<and> revs = [End_request 0 bx])
       \<and> settled st' \<and> rs_disable_multi st' = rs_disable_multi st"
    (is "?all")
proof -
  consider (reinit) "rs_do_reinit st"
    | (remove) "\<not> rs_do_reinit st" "rs_do_remove st"
    | (fail) "\<not> rs_do_reinit st" "\<not> rs_do_remove st" "failed \<or> rs_card_no_ready st \<noteq> 0"
    | (good) "\<not> rs_do_reinit st" "\<not> rs_do_remove st" "\<not> failed" "rs_card_no_ready st = 0"
    by blast
  then show ?all
  proof cases
    case reinit
    then show ?all using assms
      by (auto simp: recover_reinit armed_def settled_def split: if_splits)
  next
    case remove
    then show ?all using assms by (simp add: recover_remove)
  next
    case fail
    show ?all
    proof (cases "rs_try_recovery st = 1 \<or> (card_sd c \<and> rs_try_recovery st = 2)")
      case True
      then have "recover c e failed bx req st = recover c e failed bx req (ladder (card_sd c) st)"
        using fail by (simp add: recover_failure)
      then show ?all using assms fail True
        by (auto simp: recover_reinit recover_remove ladder_def armed_def settled_def
            split: if_splits)
    next
      case False
      then show ?all using assms fail
        by (auto simp: recover_failure armed_def settled_def split: if_splits)
    qed
  next
    case good
    then show ?all using assms
      by (auto simp: recover_success armed_def settled_def)
  qed
qed


lemma poll_step_silent: "list_all silent (fst (poll_step sd i p st))"
  by (simp add: poll_step_def Let_def poll_msleep_def)

lemma status_poll_silent:
  "status_poll sd ps i st = Some (evs, gone, st') \<Longrightarrow> list_all silent evs"
proof (induction ps arbitrary: i st evs)
  case Nil
  then show ?case by simp
next
  case (Cons p ps)
  obtain evs1 x st1 where a: "poll_step sd i p st = (evs1, x, st1)"
    by (cases "poll_step sd i p st")
  have s1: "list_all silent evs1" using poll_step_silent [of sd i p st] a by simp
  show ?case
  proof (cases x)
    case Poll_again
    with Cons.prems a obtain evs2 where
      r: "status_poll sd ps (i + 1) st1 = Some (evs2, gone, st')" and e: "evs = evs1 @ evs2"
      by (auto split: option.splits)
    from Cons.IH [OF r] s1 e show ?thesis by simp
  qed (use Cons.prems a s1 in auto)
qed

lemma settled_armed: "settled st \<Longrightarrow> armed st"
  by (simp add: settled_def armed_def)

lemma trace_Nil [simp]:
  "transfers [] = 0" "reported_bytes [] = 0" "success_bytes [] = 0" "xfered_bytes [] = 0"
  "counted_bytes [] = 0" "host_conforms []"
  by (simp_all add: transfers_def reported_bytes_def success_bytes_def xfered_bytes_def
      counted_bytes_def host_conforms_def)

lemma trace_Cons [simp]:
  "transfers (ev # tr) = ev_transfer ev + transfers tr"
  "reported_bytes (ev # tr) = ev_reported ev + reported_bytes tr"
  "success_bytes (ev # tr) = ev_success ev + success_bytes tr"
  "xfered_bytes (ev # tr) = ev_xfered ev + xfered_bytes tr"
  "counted_bytes (ev # tr) = ev_counted ev + counted_bytes tr"
  "host_conforms (ev # tr) \<longleftrightarrow> ev_conforms ev \<and> host_conforms tr"
  by (simp_all add: transfers_def reported_bytes_def success_bytes_def xfered_bytes_def
      counted_bytes_def host_conforms_def)

lemma trace_append [simp]:
  "transfers (tr @ tr') = transfers tr + transfers tr'"
  "reported_bytes (tr @ tr') = reported_bytes tr + reported_bytes tr'"
  "success_bytes (tr @ tr') = success_bytes tr + success_bytes tr'"
  "xfered_bytes (tr @ tr') = xfered_bytes tr + xfered_bytes tr'"
  "counted_bytes (tr @ tr') = counted_bytes tr + counted_bytes tr'"
  "host_conforms (tr @ tr') \<longleftrightarrow> host_conforms tr \<and> host_conforms tr'"
  by (simp_all add: transfers_def reported_bytes_def success_bytes_def xfered_bytes_def
      counted_bytes_def host_conforms_def)

lemma silent_trace:
  "list_all silent tr \<Longrightarrow>
   transfers tr = 0 \<and> reported_bytes tr = 0 \<and> success_bytes tr = 0 \<and> xfered_bytes tr = 0
   \<and> counted_bytes tr = 0 \<and> host_conforms tr"
proof (induction tr)
  case Nil
  show ?case by simp
next
  case (Cons ev tr)
  then show ?case by (cases ev) simp_all
qed


lemma recover_escalate:
  assumes "\<not> rs_do_reinit st" and "\<not> rs_do_remove st"
    and "failed \<or> rs_card_no_ready st \<noteq> 0"
    and "rs_try_recovery st = 1 \<or> (card_sd c \<and> rs_try_recovery st = 2)"
  shows "recover c e failed bx req st =
     (if rs_try_recovery st = 1
      then (if ce_removed e
            then ([], Goto_cmd_err req (st\<lparr>rs_try_recovery := 2, rs_do_reinit := False\<rparr>))
            else if ce_reinit e = 0
            then ([Reinit_card 0, Set_blksize],
                  Next req (st\<lparr>rs_try_recovery := 2, rs_do_reinit := False, rs_err := 0\<rparr>))
            else (Reinit_card (ce_reinit e) # (if card_sd c then [Remove_card] else []),
                  Goto_cmd_err req (st\<lparr>rs_try_recovery := 2, rs_do_reinit := False,
                                       rs_err := ce_reinit e\<rparr>)))
      else ([Remove_card], Goto_cmd_err req (st\<lparr>rs_try_recovery := 3, rs_do_remove := False\<rparr>)))"
  using assms by (auto simp: recover_failure recover_reinit recover_remove ladder_def)

lemma recover_last:
  assumes "\<not> rs_do_reinit st" and "\<not> rs_do_remove st"
    and "failed \<or> rs_card_no_ready st \<noteq> 0"
    and "\<not> (rs_try_recovery st = 1 \<or> (card_sd c \<and> rs_try_recovery st = 2))"
  shows "recover c e failed bx req st =
     (if rq_dir req = READ
      then ([End_request (- EIO) 512],
            Next (snd (blk_end_request req 512))
                 (st\<lparr>rs_try_recovery := rs_try_recovery st + 1,
                     rs_ret := fst (blk_end_request req 512)\<rparr>))
      else ([], Goto_cmd_err req (st\<lparr>rs_try_recovery := rs_try_recovery st + 1\<rparr>)))"
  using assms by (subst recover_failure) auto

lemma recover_events:
  "transfers (fst (recover c e failed bx req st)) = 0
   \<and> xfered_bytes (fst (recover c e failed bx req st)) = 0
   \<and> counted_bytes (fst (recover c e failed bx req st)) = 0
   \<and> host_conforms (fst (recover c e failed bx req st))"
proof -
  consider (reinit) "rs_do_reinit st"
    | (remove) "\<not> rs_do_reinit st" "rs_do_remove st"
    | (escalate) "\<not> rs_do_reinit st" "\<not> rs_do_remove st" "failed \<or> rs_card_no_ready st \<noteq> 0"
        "rs_try_recovery st = 1 \<or> (card_sd c \<and> rs_try_recovery st = 2)"
    | (last) "\<not> rs_do_reinit st" "\<not> rs_do_remove st" "failed \<or> rs_card_no_ready st \<noteq> 0"
        "\<not> (rs_try_recovery st = 1 \<or> (card_sd c \<and> rs_try_recovery st = 2))"
    | (good) "\<not> rs_do_reinit st" "\<not> rs_do_remove st" "\<not> failed" "rs_card_no_ready st = 0"
    by blast
  then show ?thesis
  proof cases
    case reinit
    then show ?thesis by (simp add: recover_reinit)
  next
    case remove
    then show ?thesis by (simp add: recover_remove)
  next
    case escalate
    then show ?thesis by (simp add: recover_escalate)
  next
    case last
    then show ?thesis by (simp add: recover_last)
  next
    case good
    then show ?thesis by (simp add: recover_success)
  qed
qed

lemma cycle_cases [consumes 1, case_names degrade gone recovered]:
  assumes cy: "cycle c e req st = Some (evs, fl)"
  obtains
    (degrade) "brq_failed (mmc_blk_plan c (rs_disable_multi st) req) (ce_xfer e)"
      "1 < pl_blocks (mmc_blk_plan c (rs_disable_multi st) req)" "rq_dir req = READ"
      "evs = [Wait_for_req (mmc_blk_plan c (rs_disable_multi st) req) (ce_xfer e)]"
      "fl = Next req (st\<lparr>rs_disable_multi := True\<rparr>)"
  | (gone) pevs st2 where "list_all silent pevs"
      "evs = (Wait_for_req (mmc_blk_plan c (rs_disable_multi st) req) (ce_xfer e)
               # (if brq_failed (mmc_blk_plan c (rs_disable_multi st) req) (ce_xfer e)
                  then [Get_card_status] else [])) @ pevs"
      "fl = Goto_cmd_err req st2"
  | (recovered) pevs revs st3 where "list_all silent pevs"
      "evs = (Wait_for_req (mmc_blk_plan c (rs_disable_multi st) req) (ce_xfer e)
               # (if brq_failed (mmc_blk_plan c (rs_disable_multi st) req) (ce_xfer e)
                  then [Get_card_status] else [])) @ pevs @ revs"
      "recover c e (brq_failed (mmc_blk_plan c (rs_disable_multi st) req) (ce_xfer e))
         (bytes_xfered (ce_xfer e)) req st3 = (revs, fl)"
      "\<not> (brq_failed (mmc_blk_plan c (rs_disable_multi st) req) (ce_xfer e)
          \<and> 1 < pl_blocks (mmc_blk_plan c (rs_disable_multi st) req) \<and> rq_dir req = READ)"
      "settled st \<longrightarrow> armed st3 \<and> rs_ret st3 = rs_ret st
         \<and> (rs_disable_multi st3 \<longleftrightarrow> rs_disable_multi st
               \<and> brq_failed (mmc_blk_plan c (rs_disable_multi st) req) (ce_xfer e))
         \<and> (rs_try_recovery st3 = 1 \<or> rs_do_reinit st3 \<longleftrightarrow> rs_try_recovery st = 1)"
proof -
  define p where "p = mmc_blk_plan c (rs_disable_multi st) req"
  define failed where "failed = brq_failed p (ce_xfer e)"
  define w where "w = Wait_for_req p (ce_xfer e) # (if failed then [Get_card_status] else [])"
  define st1 where "st1 = (if \<not> failed \<and> rs_disable_multi st
                           then st\<lparr>rs_disable_multi := False\<rparr> else st)"
  have st1: "settled st \<Longrightarrow> settled st1 \<and> rs_ret st1 = rs_ret st
      \<and> (rs_disable_multi st1 \<longleftrightarrow> rs_disable_multi st \<and> failed)
      \<and> rs_try_recovery st1 = rs_try_recovery st"
    by (auto simp: st1_def settled_def)
  show thesis
  proof (cases "failed \<and> 1 < pl_blocks p \<and> rq_dir req = READ")
    case True
    with cy have "evs = [Wait_for_req p (ce_xfer e)]" "fl = Next req (st\<lparr>rs_disable_multi := True\<rparr>)"
      by (simp_all add: cycle_def Let_def p_def failed_def)
    with True show thesis
      unfolding p_def failed_def by (intro degrade) simp_all
  next
    case nd: False
    show thesis
    proof (cases "\<not> host_spi c \<and> rq_dir req \<noteq> READ")
      case polled: True
      from cy nd polled obtain pevs away st2 where
        sp: "status_poll (card_sd c) (ce_polls e) 0 (st1\<lparr>rs_err := 0\<rparr>) = Some (pevs, away, st2)"
        by (auto simp: cycle_def Let_def p_def failed_def st1_def split: option.splits)
      have sil: "list_all silent pevs" using sp by (rule status_poll_silent)
      have st2: "armed st2 \<and> rs_ret st2 = rs_ret st
          \<and> (rs_disable_multi st2 \<longleftrightarrow> rs_disable_multi st \<and> failed)
          \<and> (rs_try_recovery st2 = 1 \<or> rs_do_reinit st2 \<longleftrightarrow> rs_try_recovery st = 1)"
        if "settled st"
      proof -
        from that st1 have a: "settled st1" "rs_ret st1 = rs_ret st"
          "rs_disable_multi st1 \<longleftrightarrow> rs_disable_multi st \<and> failed"
          "rs_try_recovery st1 = rs_try_recovery st"
          by simp_all
        from a(1) have "settled (st1\<lparr>rs_err := 0\<rparr>)" by (simp add: settled_def)
        from status_poll_state [OF sp this] a show ?thesis by simp
      qed
      show thesis
      proof (cases away)
        case True
        with cy nd polled sp have "evs = w @ pevs" "fl = Goto_cmd_err req st2"
          by (simp_all add: cycle_def Let_def p_def failed_def st1_def w_def)
        with sil show thesis
          unfolding w_def p_def failed_def by (intro gone)
      next
        case False
        define st3 where "st3 = (if rs_err st2 = 0 then st2\<lparr>rs_card_no_ready := 0\<rparr> else st2)"
        obtain revs fl' where r: "recover c e failed (bytes_xfered (ce_xfer e)) req st3 = (revs, fl')"
          by (cases "recover c e failed (bytes_xfered (ce_xfer e)) req st3")
        with cy nd polled sp False have ev: "evs = w @ pevs @ revs" and "fl = fl'"
          by (simp_all add: cycle_def Let_def p_def failed_def st1_def w_def st3_def)
        with r have fl: "recover c e failed (bytes_xfered (ce_xfer e)) req st3 = (revs, fl)"
          by simp
        have "settled st \<longrightarrow> armed st3 \<and> rs_ret st3 = rs_ret st
                        \<and> (rs_disable_multi st3 \<longleftrightarrow> rs_disable_multi st \<and> failed)
                        \<and> (rs_try_recovery st3 = 1 \<or> rs_do_reinit st3
                              \<longleftrightarrow> rs_try_recovery st = 1)"
          using st2 by (auto simp: st3_def armed_def)
        with sil ev fl nd show thesis
          unfolding w_def p_def failed_def by (intro recovered)
      qed
    next
      case direct: False
      obtain revs fl' where r: "recover c e failed (bytes_xfered (ce_xfer e)) req st1 = (revs, fl')"
        by (cases "recover c e failed (bytes_xfered (ce_xfer e)) req st1")
      with cy nd direct have ev: "evs = w @ [] @ revs" and "fl = fl'"
        by (auto simp: cycle_def Let_def p_def failed_def st1_def w_def)
      with r have fl: "recover c e failed (bytes_xfered (ce_xfer e)) req st1 = (revs, fl)"
        by simp
      have "settled st \<longrightarrow> armed st1 \<and> rs_ret st1 = rs_ret st
                        \<and> (rs_disable_multi st1 \<longleftrightarrow> rs_disable_multi st \<and> failed)
                        \<and> (rs_try_recovery st1 = 1 \<or> rs_do_reinit st1
                              \<longleftrightarrow> rs_try_recovery st = 1)"
        using st1 by (auto simp: settled_def armed_def)
      moreover have "list_all silent ([]::event list)" by simp
      ultimately show thesis using ev fl nd
        unfolding w_def p_def failed_def by (intro recovered [of "[]"])
    qed
  qed
qed

section \<open>The request loop ends\<close>

lemma cycle_transfers:
  assumes "cycle c e req st = Some (evs, fl)"
  shows "transfers evs = 1"
  using assms
proof (cases rule: cycle_cases)
  case degrade
  then show ?thesis by simp
next
  case (gone pevs st2)
  then show ?thesis using silent_trace [of pevs] by simp
next
  case (recovered pevs revs st3)
  then show ?thesis
    using silent_trace [of pevs]
      recover_events [of c e "brq_failed (mmc_blk_plan c (rs_disable_multi st) req) (ce_xfer e)"
        "bytes_xfered (ce_xfer e)" req st3]
    by simp
qed

lemma cycle_returns:
  assumes "\<not> host_spi c \<and> rq_dir req \<noteq> READ \<longrightarrow> polls_return e"
  shows "\<exists>evs fl. cycle c e req st = Some (evs, fl)"
proof -
  have np: "status_poll (card_sd c) (ce_polls e) 0 st0 \<noteq> None"
    if "\<not> host_spi c \<and> rq_dir req \<noteq> READ" for st0
  proof
    assume "status_poll (card_sd c) (ce_polls e) 0 st0 = None"
    then have "status_poll False (ce_polls e) 0 init_rstate = None"
      by (rule status_poll_None)
    with assms that show False by (simp add: polls_return_def)
  qed
  define st1 where "st1 = (if \<not> brq_failed (mmc_blk_plan c (rs_disable_multi st) req) (ce_xfer e)
                               \<and> rs_disable_multi st
                           then st\<lparr>rs_disable_multi := False\<rparr> else st)\<lparr>rs_err := 0\<rparr>"
  show ?thesis
  proof (cases "\<not> host_spi c \<and> rq_dir req \<noteq> READ")
    case True
    from np [OF True, of st1] obtain pevs gone st2 where
      "status_poll (card_sd c) (ce_polls e) 0 st1 = Some (pevs, gone, st2)"
      by (cases "status_poll (card_sd c) (ce_polls e) 0 st1") auto
    then show ?thesis using True
      by (cases gone) (auto simp: cycle_def Let_def st1_def split: prod.splits)
  next
    case False
    then show ?thesis
      by (auto simp: cycle_def Let_def split: prod.splits)
  qed
qed

lemma cycle_progress:
  assumes cy: "cycle c e req st = Some (evs, Next req' st')"
    and se: "settled st" and al: "512 dvd blk_rq_bytes req"
    and ok: "blk_rq_bytes req \<noteq> 0 \<longrightarrow> xfer_ok e"
    and ret: "rs_ret st'"
  shows "cycles_left req' st' < cycles_left req st \<and> settled st'
       \<and> 512 dvd blk_rq_bytes req' \<and> rq_dir req' = rq_dir req
       \<and> blk_rq_bytes req' \<le> blk_rq_bytes req"
proof -
  define p where "p = mmc_blk_plan c (rs_disable_multi st) req"
  define failed where "failed = brq_failed p (ce_xfer e)"
  define bx where "bx = bytes_xfered (ce_xfer e)"
  have "(failed \<and> 1 < pl_blocks p \<and> req' = req \<and> st' = st\<lparr>rs_disable_multi := True\<rparr>)
      \<or> (\<exists>revs st3. recover c e failed bx req st3 = (revs, Next req' st')
            \<and> armed st3 \<and> (rs_disable_multi st3 \<longleftrightarrow> rs_disable_multi st \<and> failed)
            \<and> (rs_try_recovery st3 = 1 \<or> rs_do_reinit st3 \<longleftrightarrow> rs_try_recovery st = 1))"
    using cy
  proof (cases rule: cycle_cases)
    case degrade
    then show ?thesis by (simp add: p_def failed_def)
  next
    case (gone pevs st2)
    then show ?thesis by simp
  next
    case (recovered pevs revs st3)
    from recovered(3,5) se show ?thesis
      unfolding p_def failed_def bx_def by blast
  qed
  then consider (degrade) "failed" "1 < pl_blocks p" "req' = req"
        "st' = st\<lparr>rs_disable_multi := True\<rparr>"
    | (recovered) revs st3 where "recover c e failed bx req st3 = (revs, Next req' st')"
        "armed st3" "rs_disable_multi st3 \<longleftrightarrow> rs_disable_multi st \<and> failed"
        "rs_try_recovery st3 = 1 \<or> rs_do_reinit st3 \<longleftrightarrow> rs_try_recovery st = 1"
    by blast
  then show ?thesis
  proof cases
    case degrade
    have "\<not> rs_disable_multi st"
      using degrade(2) plan_degraded [of c req] by (auto simp: p_def)
    then show ?thesis using degrade se al by (simp add: cycles_left_def settled_def)
  next
    case recovered
    note rn = recover_next [OF recovered(1,2)]
    from rn have s': "settled st'" and d': "rs_disable_multi st' = rs_disable_multi st3"
      by simp_all
    from rn consider
        (reinit) "rs_do_reinit st3 \<or> rs_try_recovery st3 = 1" "req' = req"
          "rs_try_recovery st' \<noteq> 1"
      | (eio) "\<not> rs_do_reinit st3" "rs_try_recovery st3 \<noteq> 1"
          "req' = snd (blk_end_request req 512)" "rs_ret st' = fst (blk_end_request req 512)"
          "rs_try_recovery st' \<noteq> 1"
      | (good) "\<not> rs_do_reinit st3" "\<not> failed"
          "req' = snd (blk_end_request req bx)" "rs_ret st' = fst (blk_end_request req bx)"
          "rs_try_recovery st' = rs_try_recovery st3"
      by blast
    then show ?thesis
    proof cases
      case reinit
      with recovered(4) have "rs_try_recovery st = 1" by blast
      with reinit s' al show ?thesis by (simp add: cycles_left_def)
    next
      case eio
      with recovered(4) have t: "rs_try_recovery st \<noteq> 1" by blast
      from eio ret have lt: "512 < blk_rq_bytes req" by (simp add: end_request_pending)
      have "(blk_rq_bytes req - 512) div 512 + 1 \<le> blk_rq_bytes req div 512"
        using al lt by (intro sectors_decrease) simp_all
      then have "blk_rq_sectors req' + 1 \<le> blk_rq_sectors req"
        using eio(3) by (simp add: blk_rq_sectors_def)
      moreover have "512 dvd blk_rq_bytes req'" using eio(3) al by (simp add: dvd_diff_nat)
      ultimately show ?thesis using eio t s' by (simp add: cycles_left_def)
    next
      case good
      with recovered(4) have t: "rs_try_recovery st' = 1 \<longleftrightarrow> rs_try_recovery st = 1" by simp
      from good ret have lt: "bx < blk_rq_bytes req" by (simp add: end_request_pending)
      with ok have "xfer_ok e" by auto
      with good(2) have b: "512 \<le> bx" "512 dvd bx"
        by (auto simp: xfer_ok_def failed_def brq_failed_def bx_def)
      have "(blk_rq_bytes req - bx) div 512 + 1 \<le> blk_rq_bytes req div 512"
        using al lt b by (intro sectors_decrease) simp_all
      then have "blk_rq_sectors req' + 1 \<le> blk_rq_sectors req"
        using good(3) by (simp add: blk_rq_sectors_def)
      moreover have "512 dvd blk_rq_bytes req'" using good(3) al b by (simp add: dvd_diff_nat)
      ultimately show ?thesis using good t s' by (simp add: cycles_left_def)
    qed
  qed
qed


lemma fail_rest_events:
  "transfers (fail_rest ret req) = 0 \<and> xfered_bytes (fail_rest ret req) = 0
   \<and> counted_bytes (fail_rest ret req) = 0 \<and> success_bytes (fail_rest ret req) = 0"
proof (induction ret req rule: fail_rest.induct)
  case (1 ret req)
  show ?case
  proof (cases ret)
    case True
    with "1.IH" show ?thesis by (subst (1 2 3 4) fail_rest.simps) (simp add: EIO_def)
  next
    case False
    then show ?thesis by (simp add: fail_rest.simps)
  qed
qed

lemma cmd_err_transfers: "transfers (cmd_err c q bx req st) = 0"
  by (simp add: cmd_err_def Let_def fail_rest_events)

lemma issue_loop_returns:
  assumes "settled st" and "512 dvd blk_rq_bytes req"
    and "\<forall>e\<in>set es. env_ok c req e"
    and "cycles_left req st < length es"
  shows "\<exists>tr r. issue_loop c q es req st = Some (tr, r) \<and> transfers tr \<le> cycles_left req st + 1"
  using assms
proof (induction es arbitrary: req st)
  case Nil
  then show ?case by simp
next
  case (Cons e es)
  from Cons.prems(3) have ok: "env_ok c req e" by simp
  then obtain evs fl where cy: "cycle c e req st = Some (evs, fl)"
    using cycle_returns [of c req e st] by (auto simp: env_ok_def dest: clock_passes_returns)
  have t1: "transfers evs = 1" using cy by (rule cycle_transfers)
  show ?case
  proof (cases fl)
    case (Goto_cmd_err req' st')
    with cy t1 show ?thesis by (simp add: cmd_err_transfers)
  next
    case (Next req' st')
    show ?thesis
    proof (cases "rs_ret st'")
      case False
      with cy Next t1 show ?thesis by simp
    next
      case True
      from ok have "blk_rq_bytes req \<noteq> 0 \<longrightarrow> xfer_ok e" by (simp add: env_ok_def)
      from cycle_progress [OF cy [unfolded Next] Cons.prems(1,2) this True]
      have lt: "cycles_left req' st' < cycles_left req st" and se: "settled st'"
        and al: "512 dvd blk_rq_bytes req'" and dir: "rq_dir req' = rq_dir req"
        and le: "blk_rq_bytes req' \<le> blk_rq_bytes req"
        by simp_all
      have "\<forall>e\<in>set es. env_ok c req' e"
        using Cons.prems(3) dir le by (auto simp: env_ok_def)
      moreover have "cycles_left req' st' < length es" using lt Cons.prems(4) by simp
      ultimately obtain tr r where
        r: "issue_loop c q es req' st' = Some (tr, r)" and t: "transfers tr \<le> cycles_left req' st' + 1"
        using Cons.IH [OF se al] by blast
      from cy Next True r have "issue_loop c q (e # es) req st = Some (evs @ tr, r)" by simp
      moreover have "transfers (evs @ tr) \<le> cycles_left req st + 1" using t1 t lt by simp
      ultimately show ?thesis by blast
    qed
  qed
qed

text \<open>
  C6, as the code has it. The loop of \<^verbatim>\<open>mmc_blk_issue_rq\<close> returns for every sequence
  of answers, failing or not, within \<open>2 * sectors + 4\<close> cycles: every cycle that
  goes on completes at least one sector (as success or as error), or spends the one
  reinitialisation, or degrades a multi-block read, and a degradation is followed by a
  single-block cycle. Two cycles per sector are needed because degraded mode ends with
  the first sector that succeeds. The request is a whole number of sectors; when it is
  not empty, a transfer without command or data error reports a positive whole number
  of sectors; and for a write on a host that is not SPI the clock passes the budget of
  each status poll, at one of the status commands from the 1025th on. Nothing is asked
  of the card's answers to the status commands.
\<close>

theorem issue_rq_terminates:
  assumes "512 dvd blk_rq_bytes req"
    and "\<forall>e\<in>set es. env_ok c req e"
    and "2 * blk_rq_sectors req + 4 \<le> length es"
  shows "\<exists>tr r. mmc_blk_issue_rq c q es req = Some (tr, r)
           \<and> transfers tr \<le> 2 * blk_rq_sectors req + 4"
proof -
  have se: "settled init_rstate" by (simp add: settled_def init_rstate_def)
  have cl: "cycles_left req init_rstate = 2 * blk_rq_sectors req + 3"
    by (simp add: cycles_left_def init_rstate_def)
  with assms(3) have "cycles_left req init_rstate < length es" by simp
  from issue_loop_returns [OF se assms(1,2) this, of q] cl
  obtain tr r where "issue_loop c q es req init_rstate = Some (tr, r)"
    and "transfers tr \<le> 2 * blk_rq_sectors req + 4"
    by auto
  then show ?thesis by (simp add: mmc_blk_issue_rq_def)
qed

theorem issue_rq_terminates_witness:
  "\<exists>tr r. mmc_blk_issue_rq sd_card (counted 0)
            [answer_late (xfer_done 1024), answer_late xfer_timeout,
             answer_late (xfer_done 512), answer_late (xfer_done 512),
             answer_late (xfer_done 512), answer_late (xfer_done 512),
             answer_late (xfer_done 512), answer_late (xfer_done 512)]
            (rw_request WRITE 2) = Some (tr, r)
          \<and> transfers tr \<le> 8"
proof -
  let ?es = "[answer_late (xfer_done 1024), answer_late xfer_timeout,
             answer_late (xfer_done 512), answer_late (xfer_done 512),
             answer_late (xfer_done 512), answer_late (xfer_done 512),
             answer_late (xfer_done 512), answer_late (xfer_done 512)]"
  have a: "512 dvd blk_rq_bytes (rw_request WRITE 2)" by (simp add: run_defs)
  have l: "clock_passes (answer_late oc)" for oc
    by (simp add: clock_passes_def answer_late_def)
  have x: "xfer_ok (answer_late (xfer_done 1024))" "xfer_ok (answer_late xfer_timeout)"
    "xfer_ok (answer_late (xfer_done 512))"
    by (simp_all add: xfer_ok_def answer_late_def xfer_done_def xfer_timeout_def)
  have b: "\<forall>e\<in>set ?es. env_ok sd_card (rw_request WRITE 2) e"
    by (simp add: env_ok_def l x)
  have c: "2 * blk_rq_sectors (rw_request WRITE 2) + 4 \<le> length ?es" by (simp add: run_defs)
  have d: "2 * blk_rq_sectors (rw_request WRITE 2) + 4 = 8" by (simp add: run_defs)
  from issue_rq_terminates [OF a b c, of "counted 0"] show ?thesis unfolding d .
qed

text \<open>
  The claim C6 as stated allows one cycle per sector besides the rungs and the
  reinitialisation. A read of 16 sectors in which every multi-block transfer fails and
  every single-block transfer succeeds takes 31 cycles and returns 1; after 20 cycles
  it is still running.
\<close>

theorem degraded_reads_take_two_cycles_per_sector:
  "map_option (\<lambda>(tr, r). (transfers tr, r))
     (mmc_blk_issue_rq emmc_card (counted 0)
        [answer xfer_timeout, answer (xfer_done 512),
         answer xfer_timeout, answer (xfer_done 512),
         answer xfer_timeout, answer (xfer_done 512),
         answer xfer_timeout, answer (xfer_done 512),
         answer xfer_timeout, answer (xfer_done 512),
         answer xfer_timeout, answer (xfer_done 512),
         answer xfer_timeout, answer (xfer_done 512),
         answer xfer_timeout, answer (xfer_done 512),
         answer xfer_timeout, answer (xfer_done 512),
         answer xfer_timeout, answer (xfer_done 512),
         answer xfer_timeout, answer (xfer_done 512),
         answer xfer_timeout, answer (xfer_done 512),
         answer xfer_timeout, answer (xfer_done 512),
         answer xfer_timeout, answer (xfer_done 512),
         answer xfer_timeout, answer (xfer_done 512),
         answer (xfer_done 512)]
        (rw_request READ 16))
   = Some (31, 1)
   \<and> mmc_blk_issue_rq emmc_card (counted 0)
        [answer xfer_timeout, answer (xfer_done 512),
         answer xfer_timeout, answer (xfer_done 512),
         answer xfer_timeout, answer (xfer_done 512),
         answer xfer_timeout, answer (xfer_done 512),
         answer xfer_timeout, answer (xfer_done 512),
         answer xfer_timeout, answer (xfer_done 512),
         answer xfer_timeout, answer (xfer_done 512),
         answer xfer_timeout, answer (xfer_done 512),
         answer xfer_timeout, answer (xfer_done 512),
         answer xfer_timeout, answer (xfer_done 512)]
        (rw_request READ 16) = None"
  by (simp add: run_defs)

section \<open>Accounting of completed bytes\<close>














section \<open>The escalation ladder\<close>








end
